theory Spec2Isabelle
  imports Complex_Main "HOL-Library.Sublist"
begin

section \<open>Data model of the flow builder (flow-builder.js)\<close>

text \<open>
  The editor keeps two arrays, \<open>nodes\<close> and \<open>connections\<close>, and a reference
  \<open>selectedNode\<close>. A node object carries \<open>id\<close>, \<open>type\<close>, \<open>subType\<close>,
  \<open>position\<close>, \<open>config\<close> and its DOM \<open>element\<close>. Of the element only the
  \<open>.output-ports-container\<close> is read by the operations modelled here: it is the list of
  the \<open>data-port-number\<close> attributes of its \<open>.output-port\<close> children, absent for a
  node that is no router. Every value stored in an agent's config comes from a form
  field, so it is a string; a property that was never set is \<open>undefined\<close> (\<open>None\<close>).
\<close>

record pattern =
  keyword :: string
  port :: int
  originalType :: string
  originalValue :: string

record config =
  name :: "string option"
  apiKey :: "string option"
  apiUrl :: "string option"
  model :: "string option"
  accessKey :: "string option"
  secretKey :: "string option"
  region :: "string option"
  agentPort :: "string option"
  endpoint :: "string option"
  routingStrategy :: "string option"
  outputPorts :: "int option"
  keywordPatterns :: "pattern list option"

record node =
  nid :: string
  ntype :: string
  subType :: "string option"
  position :: "real \<times> real"
  nconfig :: "config option"
  outputPortsContainer :: "int list option"

text \<open>
  An endpoint as \<open>createConnection\<close> stores it: the node, the port's
  \<open>data-port-type\<close> (\<open>input\<close> or \<open>output\<close>) and the \<open>data-port-number\<close>
  attribute, which only a router's output ports have (\<open>getAttribute\<close> gives
  \<open>null\<close> otherwise). The canvas coordinates of the port are kept as the drawing code
  has them. A connection object has the properties \<open>id\<close>, \<open>element\<close>, \<open>start\<close>
  and \<open>end\<close>; \<open>removeOutputPort\<close> also reads \<open>sourceNode\<close> and \<open>sourcePort\<close>
  of it, which are \<open>undefined\<close> (\<open>None\<close>) on an object that does not define them.
\<close>

record endpoint =
  nodeId :: string
  portType :: string
  portNumber :: "string option"
  px :: real
  py :: real

record connection =
  cid :: string
  cstart :: endpoint
  cend :: endpoint
  sourceNode :: "string option"
  sourcePort :: "int option"

text \<open>The object literal \<open>{}\<close>: every property is undefined.\<close>

definition emptyConfig :: config where
  "emptyConfig = \<lparr> name = None, apiKey = None, apiUrl = None, model = None,
     accessKey = None, secretKey = None, region = None, agentPort = None,
     endpoint = None, routingStrategy = None, outputPorts = None,
     keywordPatterns = None \<rparr>"

text \<open>JavaScript truthiness of a property holding a string or nothing.\<close>

fun truthy :: "string option \<Rightarrow> bool" where
  "truthy None = False"
| "truthy (Some s) = (s \<noteq> [])"

section \<open>The per-subgraph validator \<open>validateNetworkSubset\<close>\<close>

text \<open>
  The body of the last loop of \<open>validateNetworkSubset\<close> for one node: \<open>False\<close>
  where the source returns \<open>false\<close>. The chain of \<open>else if\<close> has no final
  \<open>else\<close>.
\<close>

definition agentConfigured :: "node \<Rightarrow> bool" where
  "agentConfigured n =
     (if ntype n = ''agent'' then
        (let config = (case nconfig n of None \<Rightarrow> emptyConfig | Some c \<Rightarrow> c);
             agentType = subType n
         in if agentType = Some ''openai'' \<and> (\<not> truthy (apiKey config) \<or> \<not> truthy (model config))
              then False
            else if agentType = Some ''ollama'' \<and>
                    (\<not> truthy (apiUrl config) \<or> \<not> truthy (apiKey config) \<or> \<not> truthy (model config))
              then False
            else if agentType = Some ''anthropic'' \<and>
                    (\<not> truthy (apiKey config) \<or> \<not> truthy (model config))
              then False
            else if agentType = Some ''bedrock'' \<and>
                    (\<not> truthy (accessKey config) \<or> \<not> truthy (secretKey config) \<or>
                     \<not> truthy (region config) \<or> \<not> truthy (model config))
              then False
            else if agentType = Some ''custom'' \<and>
                    (\<not> truthy (agentPort config) \<and> \<not> truthy (endpoint config))
              then False
            else True)
      else True)"

text \<open>The set \<open>connectedNodeIds\<close>, built by the \<open>forEach\<close> over the connections.\<close>

definition connectedNodeIds :: "connection list \<Rightarrow> string set" where
  "connectedNodeIds cs = set (concat (map (\<lambda>conn. [nodeId (cstart conn), nodeId (cend conn)]) cs))"

definition validateNetworkSubset :: "node list \<Rightarrow> connection list \<Rightarrow> bool" where
  "validateNetworkSubset networkNodes networkConnections =
     (let inputNodes = filter (\<lambda>n. ntype n = ''input'') networkNodes;
          outputNodes = filter (\<lambda>n. ntype n = ''output'') networkNodes
      in if length inputNodes = 0 \<or> length outputNodes = 0 then False
         else if length networkConnections = 0 then False
         else
           (let ids = connectedNodeIds networkConnections;
                inputConnected = list_ex (\<lambda>n. nid n \<in> ids) inputNodes;
                outputConnected = list_ex (\<lambda>n. nid n \<in> ids) outputNodes
            in if \<not> inputConnected \<or> \<not> outputConnected then False
               else if list_ex (\<lambda>n. nid n \<notin> ids) networkNodes then False
               else if list_ex (\<lambda>n. \<not> agentConfigured n) networkNodes then False
               else True))"

section \<open>The whole-canvas validator \<open>validateNetwork\<close>\<close>










definition push :: "bool \<Rightarrow> string \<Rightarrow> string list \<Rightarrow> string list" where
  "push failed msg errs = (if failed then errs @ [msg] else errs)"






section \<open>The editor state and its handlers\<close>

text \<open>
  What a handler throws: the \<open>TypeError\<close> of a property access on \<open>undefined\<close>, and the
  \<open>NotFoundError\<close> of \<open>removeChild\<close> on an element that is no child of the parent.
\<close>

datatype jsError = TypeError | NotFoundError

text \<open>Decimal digits of a number inside a template literal or a string concatenation.\<close>

fun decimal :: "nat \<Rightarrow> string" where
  "decimal n = (if n < 10 then [char_of (48 + n)] else decimal (n div 10) @ [char_of (48 + n mod 10)])"

declare decimal.simps [simp del]

text \<open>
  The closure variables the handlers share: the counter that numbers the nodes, the two
  arrays, and \<open>selectedNode\<close> and \<open>connectionStart\<close>, which are \<open>null\<close> (\<open>None\<close>) or
  an object. Of the document the handlers need the children of \<open>nodeContainer\<close> and the
  connection paths among the children of \<open>svgContainer\<close>, because \<open>removeChild\<close> throws
  on an element that is not a child of the parent it is called on. An element is named
  by its \<open>id\<close> attribute: the id of its node, or the id of its connection.
\<close>

record editor =
  nodeCounter :: nat
  nodes :: "node list"
  connections :: "connection list"
  selectedNode :: "node option"
  connectionStart :: "endpoint option"
  nodeContainerChildren :: "string list"
  svgContainerChildren :: "string list"

definition initialEditor :: editor where
  "initialEditor = \<lparr> nodeCounter = 0, nodes = [], connections = [], selectedNode = None,
     connectionStart = None, nodeContainerChildren = [], svgContainerChildren = [] \<rparr>"

text \<open>
  The card that is dropped on the canvas: its \<open>type\<close>, and \<open>agentType\<close> or
  \<open>toolType\<close> where the card has one.
\<close>

record cardData =
  cardType :: string
  agentType :: "string option"
  toolType :: "string option"

text \<open>The config that \<open>createNode\<close> gives a router, as far as \<open>config\<close> records it.\<close>

definition routerDefaults :: config where
  "routerDefaults = emptyConfig\<lparr> name := Some ''Router'', routingStrategy := Some ''keyword'',
     outputPorts := Some 2,
     keywordPatterns := Some
       [\<lparr> keyword = ''.*'', port = 0, originalType = ''regex'', originalValue = ''.*'' \<rparr>,
        \<lparr> keyword = ''.*question.*'', port = 1, originalType = ''regex'',
          originalValue = ''.*question.*'' \<rparr>] \<rparr>"

text \<open>
  \<open>createNode(x, y, cardData)\<close>: the element becomes a child of \<open>nodeContainer\<close>, the
  node object is pushed and returned. A router's element has the two output ports
  \<open>0\<close> and \<open>1\<close>.
\<close>

definition createNode :: "real \<Rightarrow> real \<Rightarrow> cardData \<Rightarrow> editor \<Rightarrow> node \<times> editor" where
  "createNode x y cardData s =
     (let counter = nodeCounter s + 1;
          node_id = ''node-'' @ decimal counter;
          nodeData = \<lparr> nid = node_id, ntype = cardType cardData,
            subType = (if cardType cardData = ''agent'' then agentType cardData
                       else if cardType cardData = ''tool'' then toolType cardData else None),
            position = (x, y),
            nconfig = Some (if cardType cardData = ''router'' then routerDefaults else emptyConfig),
            outputPortsContainer = (if cardType cardData = ''router'' then Some [0, 1] else None) \<rparr>
      in (nodeData,
          s\<lparr> nodeCounter := counter,
             nodeContainerChildren := nodeContainerChildren s @ [node_id],
             nodes := nodes s @ [nodeData] \<rparr>))"

text \<open>
  \<open>addInputNode()\<close> and \<open>addOutputNode()\<close>, the two toolbar buttons. The position is
  computed from the visible part of the canvas; it is the argument here. The element
  becomes a child of \<open>canvas\<close>, not of \<open>nodeContainer\<close>, and has no delete button.
\<close>

definition addInputNode :: "real \<Rightarrow> real \<Rightarrow> editor \<Rightarrow> node \<times> editor" where
  "addInputNode x y s =
     (let counter = nodeCounter s + 1;
          node_id = ''node-'' @ decimal counter;
          nodeData = \<lparr> nid = node_id, ntype = ''input'', subType = None, position = (x, y),
            nconfig = Some (emptyConfig\<lparr> name := Some ''Input'' \<rparr>),
            outputPortsContainer = None \<rparr>
      in (nodeData, s\<lparr> nodeCounter := counter, nodes := nodes s @ [nodeData] \<rparr>))"

definition addOutputNode :: "real \<Rightarrow> real \<Rightarrow> editor \<Rightarrow> node \<times> editor" where
  "addOutputNode x y s =
     (let counter = nodeCounter s + 1;
          node_id = ''node-'' @ decimal counter;
          nodeData = \<lparr> nid = node_id, ntype = ''output'', subType = None, position = (x, y),
            nconfig = Some (emptyConfig\<lparr> name := Some ''Output'' \<rparr>),
            outputPortsContainer = None \<rparr>
      in (nodeData, s\<lparr> nodeCounter := counter, nodes := nodes s @ [nodeData] \<rparr>))"

text \<open>
  The test of \<open>connections.find\<close> in \<open>createConnection\<close>: the same two nodes and the
  same two port types, in either orientation. The port number is not compared.
\<close>

definition sameEnds :: "endpoint \<Rightarrow> endpoint \<Rightarrow> connection \<Rightarrow> bool" where
  "sameEnds start endp conn =
     ((nodeId (cstart conn) = nodeId start \<and> nodeId (cend conn) = nodeId endp \<and>
       portType (cstart conn) = portType start \<and> portType (cend conn) = portType endp) \<or>
      (nodeId (cstart conn) = nodeId endp \<and> nodeId (cend conn) = nodeId start \<and>
       portType (cstart conn) = portType endp \<and> portType (cend conn) = portType start))"

text \<open>
  \<open>createConnection(start, end)\<close> (\<open>endp\<close> is the source's \<open>end\<close>). The suffix of the id comes from the clock and the
  random generator; it is the argument \<open>uniqueId\<close>. The path gets the id of the
  connection and becomes a child of \<open>svgContainer\<close>. The result is the stored object, or
  \<open>undefined\<close> when a connection between the two ports exists.
\<close>

definition createConnection ::
  "string \<Rightarrow> endpoint \<Rightarrow> endpoint \<Rightarrow> editor \<Rightarrow> connection option \<times> editor" where
  "createConnection uniqueId start endp s =
     (let connectionId = ''connection-'' @ nodeId start @ ''-'' @ nodeId endp @ ''-'' @ uniqueId;
          existingConnection = find (sameEnds start endp) (connections s)
      in case existingConnection of
           Some _ \<Rightarrow> (None, s)
         | None \<Rightarrow>
             (let connectionData = \<lparr> cid = connectionId,
                    cstart = \<lparr> nodeId = nodeId start, portType = portType start,
                               portNumber = portNumber start, px = px start, py = py start \<rparr>,
                    cend = \<lparr> nodeId = nodeId endp, portType = portType endp,
                             portNumber = portNumber endp, px = px endp, py = py endp \<rparr>,
                    sourceNode = None, sourcePort = None \<rparr>
              in (Some connectionData,
                  s\<lparr> svgContainerChildren := svgContainerChildren s @ [connectionId],
                     connections := connections s @ [connectionData] \<rparr>)))"

text \<open>
  The \<open>mousedown\<close> handler of a port records where the gesture starts; the argument is
  what the handler reads from the port and its node.
\<close>

definition portMouseDown :: "endpoint \<Rightarrow> editor \<Rightarrow> editor" where
  "portMouseDown p s = s\<lparr> connectionStart := Some p \<rparr>"

text \<open>The \<open>mouseup\<close> handler of a port ends the gesture.\<close>

definition portMouseUp :: "string \<Rightarrow> endpoint \<Rightarrow> editor \<Rightarrow> editor" where
  "portMouseUp uniqueId p s =
     (case connectionStart s of
        None \<Rightarrow> s
      | Some start0 \<Rightarrow>
          (let end0 = p;
               s1 =
                 (if nodeId start0 \<noteq> nodeId end0 \<and>
                     ((portType start0 = ''output'' \<and> portType end0 = ''input'') \<or>
                      (portType start0 = ''input'' \<and> portType end0 = ''output''))
                  then
                    (if portType start0 = ''input''
                     then snd (createConnection uniqueId end0 start0 s)
                     else snd (createConnection uniqueId start0 end0 s))
                  else s)
           in s1\<lparr> connectionStart := None \<rparr>))"

text \<open>The \<open>mouseup\<close> handler of the window abandons a gesture that ended on no port.\<close>

definition windowMouseUp :: "editor \<Rightarrow> editor" where
  "windowMouseUp s = s\<lparr> connectionStart := None \<rparr>"

text \<open>\<open>deselectAllNodes()\<close>, which a click on the empty canvas calls.\<close>

definition deselectAllNodes :: "editor \<Rightarrow> editor" where
  "deselectAllNodes s = s\<lparr> selectedNode := None \<rparr>"

text \<open>
  The loop \<open>relatedConnections.forEach(conn => { svgContainer.removeChild(conn.element);
  connections = connections.filter(c => c.id !== conn.id); })\<close> shared by the two ways
  of deleting a node. Its state is the children of \<open>svgContainer\<close> and \<open>connections\<close>.
  A path that is no child of \<open>svgContainer\<close> ends the loop with the error, and what the
  loop wrote before stays written.
\<close>

fun removeRelated ::
  "connection list \<Rightarrow> string list \<times> connection list \<Rightarrow>
     jsError option \<times> string list \<times> connection list" where
  "removeRelated [] st = (None, st)"
| "removeRelated (conn # rest) st =
     (if cid conn \<in> set (fst st)
      then removeRelated rest
             (remove1 (cid conn) (fst st), filter (\<lambda>c. cid c \<noteq> cid conn) (snd st))
      else (Some NotFoundError, st))"

text \<open>
  The click handler of a node's delete button; \<open>nodeData\<close> is the node of the button.
  The result is the error that ended the handler, if any, and the state it leaves.
  \<open>nodeContainer.removeChild(nodeElement)\<close> comes after the loop and before \<open>nodes\<close> is
  filtered.
\<close>

definition deleteButton :: "node \<Rightarrow> editor \<Rightarrow> jsError option \<times> editor" where
  "deleteButton nodeData s =
     (let relatedConnections =
            filter (\<lambda>conn. nodeId (cstart conn) = nid nodeData \<or> nodeId (cend conn) = nid nodeData)
              (connections s);
          r = removeRelated relatedConnections (svgContainerChildren s, connections s);
          s1 = s\<lparr> svgContainerChildren := fst (snd r), connections := snd (snd r) \<rparr>
      in case fst r of
           Some e \<Rightarrow> (Some e, s1)
         | None \<Rightarrow>
             if nid nodeData \<in> set (nodeContainerChildren s1)
             then (None,
                   s1\<lparr> nodeContainerChildren := remove1 (nid nodeData) (nodeContainerChildren s1),
                       nodes := filter (\<lambda>n. nid n \<noteq> nid nodeData) (nodes s1) \<rparr>)
             else (Some NotFoundError, s1))"

text \<open>
  \<open>deleteSelected\<close>, the handler of the toolbar's delete button. With a selected node
  it does what the node's delete button does, then resets \<open>selectedNode\<close>. Without one
  it deletes the connection whose path has the class \<open>selected\<close>; which one that is
  belongs to the DOM, so its id is the argument \<open>selectedConn\<close> (\<open>None\<close> when \<open>find\<close>
  finds none).
\<close>

definition deleteSelected :: "string option \<Rightarrow> editor \<Rightarrow> jsError option \<times> editor" where
  "deleteSelected selectedConn s =
     (case selectedNode s of
        Some sel \<Rightarrow>
          (let relatedConnections =
                 filter (\<lambda>conn. nodeId (cstart conn) = nid sel \<or> nodeId (cend conn) = nid sel)
                   (connections s);
               r = removeRelated relatedConnections (svgContainerChildren s, connections s);
               s1 = s\<lparr> svgContainerChildren := fst (snd r), connections := snd (snd r) \<rparr>
           in case fst r of
                Some e \<Rightarrow> (Some e, s1)
              | None \<Rightarrow>
                  if nid sel \<in> set (nodeContainerChildren s1)
                  then (None,
                        s1\<lparr> nodeContainerChildren := remove1 (nid sel) (nodeContainerChildren s1),
                            nodes := filter (\<lambda>n. nid n \<noteq> nid sel) (nodes s1),
                            selectedNode := None \<rparr>)
                  else (Some NotFoundError, s1))
      | None \<Rightarrow>
          (case selectedConn of
             Some i \<Rightarrow>
               if i \<in> set (svgContainerChildren s)
               then (None,
                     s\<lparr> svgContainerChildren := remove1 i (svgContainerChildren s),
                        connections := filter (\<lambda>c. cid c \<noteq> i) (connections s) \<rparr>)
               else (Some NotFoundError, s)
           | None \<Rightarrow> (None, s)))"

text \<open>
  The delete button of a connection, after its animation: the path is removed if
  \<open>svgContainer\<close> contains it, and the connection is filtered out by its id.
\<close>

definition deleteConnection :: "string \<Rightarrow> editor \<Rightarrow> editor" where
  "deleteConnection connectionId s =
     (let s1 = (if connectionId \<in> set (svgContainerChildren s)
                then s\<lparr> svgContainerChildren := remove1 connectionId (svgContainerChildren s) \<rparr>
                else s)
      in s1\<lparr> connections := filter (\<lambda>c. cid c \<noteq> connectionId) (connections s1) \<rparr>)"

text \<open>
  The user's actions on the store, each with what its handler reads from the event and
  the document. A handler that throws ends there, and the state is what it had written
  by then. The events are not restricted to what the document offers at the moment (a
  click on a node that is gone, say), so the sequences of events include every sequence
  that a user can produce.
\<close>

datatype event =
    CreateNode real real cardData
  | AddInputNode real real
  | AddOutputNode real real
  | ClickNode node
  | ClickCanvas
  | PortMouseDown endpoint
  | PortMouseUp string endpoint
  | WindowMouseUp
  | DeleteButton node
  | DeleteSelected "string option"
  | DeleteConnection string

fun handle :: "editor \<Rightarrow> event \<Rightarrow> editor" where
  "handle s (CreateNode x y cardData) = snd (createNode x y cardData s)"
| "handle s (AddInputNode x y) = snd (addInputNode x y s)"
| "handle s (AddOutputNode x y) = snd (addOutputNode x y s)"
| "handle s (ClickNode n) = s\<lparr> selectedNode := Some n \<rparr>"
| "handle s ClickCanvas = deselectAllNodes s"
| "handle s (PortMouseDown p) = portMouseDown p s"
| "handle s (PortMouseUp u p) = portMouseUp u p s"
| "handle s WindowMouseUp = windowMouseUp s"
| "handle s (DeleteButton n) = snd (deleteButton n s)"
| "handle s (DeleteSelected i) = snd (deleteSelected i s)"
| "handle s (DeleteConnection i) = deleteConnection i s"

definition run :: "event list \<Rightarrow> editor" where
  "run evs = foldl handle initialEditor evs"


section \<open>Router ports and keyword rules\<close>

text \<open>
  \<open>config.outputPorts\<close> read with its default: \<open>2\<close> when the property is undefined
  or \<open>0\<close>.
\<close>

definition outputPortsOr2 :: "config \<Rightarrow> int" where
  "outputPortsOr2 cfg = (case outputPorts cfg of None \<Rightarrow> 2 | Some k \<Rightarrow> if k = 0 then 2 else k)"

text \<open>
  \<open>addNewOutputPort()\<close> works on \<open>selectedNode\<close>. It returns the number of the new port
  and writes the count and the new port element. Writing \<open>config.outputPorts\<close> on a node
  without config throws.
\<close>

definition addNewOutputPort :: "node option \<Rightarrow> jsError + (int \<times> node option)" where
  "addNewOutputPort sel =
     (case sel of
        None \<Rightarrow> Inr (0, sel)
      | Some n \<Rightarrow>
          if ntype n \<noteq> ''router'' then Inr (0, sel)
          else
            (case nconfig n of
               None \<Rightarrow> Inl TypeError
             | Some cfg \<Rightarrow>
                 (let count = outputPortsOr2 cfg;
                      n1 = n\<lparr> nconfig := Some (cfg\<lparr> outputPorts := Some (count + 1) \<rparr>) \<rparr>;
                      n2 = (case outputPortsContainer n1 of
                              None \<Rightarrow> n1
                            | Some ps \<Rightarrow> n1\<lparr> outputPortsContainer := Some (ps @ [count]) \<rparr>)
                  in Inr (count, Some n2))))"

text \<open>\<open>findIndex\<close> followed by \<open>splice(index, 1)\<close>: the first element that matches goes.\<close>

fun removeFirst :: "('a \<Rightarrow> bool) \<Rightarrow> 'a list \<Rightarrow> 'a list" where
  "removeFirst P [] = []"
| "removeFirst P (x # xs) = (if P x then xs else x # removeFirst P xs)"

text \<open>
  The connections that \<open>removeOutputPort\<close> collects in \<open>connectionsToRemove\<close>, and its
  last loop over the connections.
\<close>

definition onPort :: "string \<Rightarrow> int \<Rightarrow> connection \<Rightarrow> bool" where
  "onPort i portNo connection = (sourceNode connection = Some i \<and> sourcePort connection = Some portNo)"

definition shiftPort :: "string \<Rightarrow> int \<Rightarrow> connection \<Rightarrow> connection" where
  "shiftPort i portNo connection =
     (case sourcePort connection of
        None \<Rightarrow> connection
      | Some q \<Rightarrow> if sourceNode connection = Some i \<and> q > portNo
                  then connection\<lparr> sourcePort := Some (q - 1) \<rparr> else connection)"

text \<open>
  \<open>removeOutputPort(portNumber)\<close>: the result, \<open>selectedNode\<close> and \<open>connections\<close>.
  Every node has an element, so the test on \<open>nodeElement\<close> never fails.
\<close>

definition removeOutputPort ::
  "int \<Rightarrow> node option \<times> connection list \<Rightarrow> bool \<times> node option \<times> connection list" where
  "removeOutputPort portNo st =
     (case fst st of
        None \<Rightarrow> (False, st)
      | Some n \<Rightarrow>
          if ntype n \<noteq> ''router'' then (False, st)
          else
            (case nconfig n of
               None \<Rightarrow> (False, st)
             | Some cfg \<Rightarrow>
                 (let count = outputPortsOr2 cfg
                  in if count \<le> 2 then (False, st)
                     else
                       (case outputPortsContainer n of
                          None \<Rightarrow> (False, st)
                        | Some ps \<Rightarrow>
                            if portNo \<notin> set ps then (False, st)
                            else
                              (let ps1 = map (\<lambda>k. if k > portNo then k - 1 else k) (remove1 portNo ps);
                                   cfg1 = cfg\<lparr> outputPorts := Some (count - 1) \<rparr>;
                                   cfg2 =
                                     (case keywordPatterns cfg1 of
                                        None \<Rightarrow> cfg1
                                      | Some pats \<Rightarrow>
                                          cfg1\<lparr> keywordPatterns := Some
                                            (map (\<lambda>pat. if port pat > portNo
                                                         then pat\<lparr> port := port pat - 1 \<rparr> else pat)
                                               (removeFirst (\<lambda>pat. port pat = portNo) pats)) \<rparr>);
                                   connectionsToRemove = filter (onPort (nid n) portNo) (snd st);
                                   cs1 = foldl (\<lambda>acc c. remove1 c acc) (snd st) connectionsToRemove;
                                   cs2 = map (shiftPort (nid n) portNo) cs1
                               in (True,
                                   Some (n\<lparr> nconfig := Some cfg2, outputPortsContainer := Some ps1 \<rparr>),
                                   cs2))))))"

text \<open>The placeholder rule that \<open>ensurePatternsMatchOutputPorts\<close> creates for port \<open>i\<close>.\<close>

definition placeholderType :: "nat \<Rightarrow> string" where
  "placeholderType i =
     (if i mod 5 = 0 then ''regex'' else if i mod 5 = 1 then ''contains''
      else if i mod 5 = 2 then ''startsWith'' else if i mod 5 = 3 then ''endsWith''
      else ''exactMatch'')"

definition placeholder :: "nat \<Rightarrow> pattern" where
  "placeholder i =
     (let patternType = placeholderType i;
          pat = (if i = 0 then ''.*''
                 else if patternType = ''regex'' then ''.*pattern'' @ decimal i @ ''.*''
                 else if patternType = ''contains'' then ''keyword'' @ decimal i
                 else if patternType = ''startsWith'' then ''start'' @ decimal i
                 else if patternType = ''endsWith'' then ''end'' @ decimal i
                 else ''exact'' @ decimal i)
      in \<lparr> keyword = pat, port = int i, originalType = patternType, originalValue = pat \<rparr>)"

text \<open>\<open>ensurePatternsMatchOutputPorts(node)\<close>, the reconciliation routine.\<close>

definition ensurePatternsMatchOutputPorts :: "node option \<Rightarrow> node option" where
  "ensurePatternsMatchOutputPorts node =
     (case node of
        None \<Rightarrow> node
      | Some n \<Rightarrow>
          if ntype n \<noteq> ''router'' then node
          else
            (case nconfig n of
               None \<Rightarrow> node
             | Some cfg \<Rightarrow>
                 (let count = max 2 (outputPortsOr2 cfg);
                      pats = (case keywordPatterns cfg of None \<Rightarrow> [] | Some ps \<Rightarrow> ps);
                      cfg1 = cfg\<lparr> keywordPatterns := Some pats \<rparr>;
                      cfg2 =
                        (if int (length pats) \<noteq> count then
                           (if int (length pats) < count
                            then cfg1\<lparr> keywordPatterns :=
                                   Some (pats @ map placeholder [length pats ..< nat count]),
                                   outputPorts := Some count \<rparr>
                            else cfg1\<lparr> keywordPatterns := Some (take (nat count) pats),
                                   outputPorts := Some count \<rparr>)
                         else cfg1)
                  in Some (n\<lparr> nconfig := Some cfg2 \<rparr>))))"

text \<open>A sequence of the three operations on the selected router.\<close>

datatype routerOp = AddOutputPort | RemoveOutputPort int | Reconcile

fun applyOp ::
  "node option \<times> connection list \<Rightarrow> routerOp \<Rightarrow> jsError + (node option \<times> connection list)" where
  "applyOp st AddOutputPort =
     (case addNewOutputPort (fst st) of Inl e \<Rightarrow> Inl e | Inr r \<Rightarrow> Inr (snd r, snd st))"
| "applyOp st (RemoveOutputPort p) = Inr (snd (removeOutputPort p st))"
| "applyOp st Reconcile = Inr (ensurePatternsMatchOutputPorts (fst st), snd st)"

fun applyOps ::
  "node option \<times> connection list \<Rightarrow> routerOp list \<Rightarrow> jsError + (node option \<times> connection list)" where
  "applyOps st [] = Inr st"
| "applyOps st (x # xs) = (case applyOp st x of Inl e \<Rightarrow> Inl e | Inr st' \<Rightarrow> applyOps st' xs)"

text \<open>The router that \<open>createNode\<close> builds, with its default config and two ports.\<close>

definition newRouter :: "string \<Rightarrow> real \<times> real \<Rightarrow> node" where
  "newRouter i pos = \<lparr> nid = i, ntype = ''router'', subType = None, position = pos,
     nconfig = Some routerDefaults, outputPortsContainer = Some [0, 1] \<rparr>"

section \<open>Polling the execution status\<close>

text \<open>
  What one status request yields: a parsed body with its \<open>status\<close>, or a failure that
  reaches the \<open>catch\<close> handler (a rejected fetch or a response that is not ok). The
  server is the function from the number of the request, counted from one, to what it
  yields. What the loop does is the list of its fetches, timers and reports, in order.

  On \<open>COMPLETED\<close> and on \<open>FAILED\<close> the loop calls \<open>fetchExecutionResult\<close>, which
  requests the status URL once more and hands what it gets (the body, or an error
  object) to \<open>showExecutionResult\<close>; that sets a timer of 1000 ms, after which it renders
  the result and re-enables the run button. What is rendered is not modelled.
\<close>

datatype response = Body string | FetchFailed

datatype pollEvent =
    Fetch
  | SetTimeout nat
  | Completed
  | Failed
  | Timeout
  | PollingError
  | ShowResult
  | RunAgain

definition maxPolls :: nat where
  "maxPolls = 60"

text \<open>\<open>fetchExecutionResult\<close> with the callback that calls \<open>showExecutionResult\<close>.\<close>

definition fetchExecutionResult :: "pollEvent list" where
  "fetchExecutionResult = [Fetch, SetTimeout 1000, ShowResult, RunAgain]"

function checkStatus :: "(nat \<Rightarrow> response) \<Rightarrow> nat \<Rightarrow> nat \<Rightarrow> pollEvent list" where
  "checkStatus server interval pollCount =
     Fetch #
     (case server (pollCount + 1) of
        Body status \<Rightarrow>
          if status = ''COMPLETED'' then Completed # fetchExecutionResult
          else if status = ''FAILED'' then Failed # fetchExecutionResult
          else if pollCount + 1 \<ge> maxPolls then [Timeout, RunAgain]
          else SetTimeout interval # checkStatus server interval (pollCount + 1)
      | FetchFailed \<Rightarrow>
          PollingError #
          (if pollCount + 1 < maxPolls
           then SetTimeout interval # checkStatus server interval (pollCount + 1)
           else [RunAgain]))"
  by pat_completeness auto
termination
  by (relation "measure (\<lambda>(server, interval, pollCount). maxPolls - pollCount)") auto

text \<open>\<open>pollExecutionStatus(executionId, interval = 1000)\<close>\<close>

definition pollExecutionStatus :: "(nat \<Rightarrow> response) \<Rightarrow> nat \<Rightarrow> pollEvent list" where
  "pollExecutionStatus server interval = checkStatus server interval 0"

definition defaultInterval :: nat where
  "defaultInterval = 1000"


section \<open>Detecting the networks on the canvas\<close>

text \<open>What \<open>detectMultipleNetworks\<close> returns for each network it keeps.\<close>

record netNode =
  nnId :: string
  nnType :: string
  nnSubType :: "string option"
  nnPosition :: "real \<times> real"
  nnConfig :: "config option"

record netConnection =
  ncSourceNode :: string
  ncSourcePort :: string
  ncTargetNode :: string
  ncTargetPort :: string

record network =
  netName :: string
  netNodes :: "netNode list"
  netConnections :: "netConnection list"
  nodeCount :: nat
  connectionCount :: nat

text \<open>
  The adjacency list is a \<open>Map\<close> from node id to the array of its neighbours: first
  every node gets the empty array, then every connection pushes each end onto the array
  of the other. \<open>adjacencyList.get\<close> of an id that is no node's gives \<open>undefined\<close>,
  and the \<open>push\<close> on it throws.
\<close>

definition emptyAdjacency :: "node list \<Rightarrow> (string \<rightharpoonup> string list)" where
  "emptyAdjacency ns = foldl (\<lambda>m n. m(nid n \<mapsto> [])) Map.empty ns"

fun addConnections ::
  "connection list \<Rightarrow> (string \<rightharpoonup> string list) \<Rightarrow> jsError + (string \<rightharpoonup> string list)" where
  "addConnections [] adjacencyList = Inr adjacencyList"
| "addConnections (conn # conns) adjacencyList =
     (let sourceId = nodeId (cstart conn); targetId = nodeId (cend conn)
      in case adjacencyList sourceId of
           None \<Rightarrow> Inl TypeError
         | Some xs \<Rightarrow>
             (let m1 = adjacencyList(sourceId \<mapsto> xs @ [targetId])
              in case m1 targetId of
                   None \<Rightarrow> Inl TypeError
                 | Some ys \<Rightarrow> addConnections conns (m1(targetId \<mapsto> ys @ [sourceId]))))"

text \<open>\<open>visitedNodes\<close> starts with \<open>false\<close> for every node.\<close>

definition noneVisited :: "node list \<Rightarrow> (string \<rightharpoonup> bool)" where
  "noneVisited ns = foldl (\<lambda>m n. m(nid n \<mapsto> False)) Map.empty ns"

text \<open>
  The recursive helper \<open>dfs(nodeId, networkNodes)\<close> and the \<open>forEach\<close> over the
  neighbours inside it. The state is \<open>visitedNodes\<close> and \<open>networkNodes\<close>. The first
  argument bounds the depth of the recursion; \<open>None\<close> means the bound was reached.
\<close>

fun dfs ::
  "nat \<Rightarrow> (string \<rightharpoonup> string list) \<Rightarrow> string \<Rightarrow> (string \<rightharpoonup> bool) \<times> string list \<Rightarrow>
     (jsError + (string \<rightharpoonup> bool) \<times> string list) option"
and dfsEach ::
  "nat \<Rightarrow> (string \<rightharpoonup> string list) \<Rightarrow> string list \<Rightarrow> (string \<rightharpoonup> bool) \<times> string list \<Rightarrow>
     (jsError + (string \<rightharpoonup> bool) \<times> string list) option" where
  "dfs 0 adjacencyList node_id st = None"
| "dfs (Suc depth) adjacencyList node_id st =
     (case adjacencyList node_id of
        None \<Rightarrow> Some (Inl TypeError)
      | Some adjacent \<Rightarrow>
          dfsEach depth adjacencyList adjacent ((fst st)(node_id \<mapsto> True), snd st @ [node_id]))"
| "dfsEach depth adjacencyList [] st = Some (Inr st)"
| "dfsEach depth adjacencyList (adjacentId # rest) st =
     (if fst st adjacentId \<noteq> Some True then
        (case dfs depth adjacencyList adjacentId st of
           None \<Rightarrow> None
         | Some (Inl e) \<Rightarrow> Some (Inl e)
         | Some (Inr st') \<Rightarrow> dfsEach depth adjacencyList rest st')
      else dfsEach depth adjacencyList rest st)"

text \<open>
  \<open>networkNodes.map(nodeId => nodes.find(n => n.id === nodeId))\<close>; an id that no node
  has gives \<open>undefined\<close>.
\<close>

definition networkNodeObjects :: "node list \<Rightarrow> string list \<Rightarrow> node option list" where
  "networkNodeObjects ns networkNodes = map (\<lambda>i. find (\<lambda>n. nid n = i) ns) networkNodes"

definition inducedConnections :: "connection list \<Rightarrow> string list \<Rightarrow> connection list" where
  "inducedConnections cs networkNodes =
     filter (\<lambda>conn. nodeId (cstart conn) \<in> set networkNodes \<and> nodeId (cend conn) \<in> set networkNodes) cs"

definition toNetNode :: "node \<Rightarrow> netNode" where
  "toNetNode n = \<lparr> nnId = nid n, nnType = ntype n, nnSubType = subType n,
     nnPosition = position n, nnConfig = nconfig n \<rparr>"

definition toNetConnection :: "connection \<Rightarrow> netConnection" where
  "toNetConnection conn = \<lparr> ncSourceNode = nodeId (cstart conn),
     ncSourcePort = portType (cstart conn), ncTargetNode = nodeId (cend conn),
     ncTargetPort = portType (cend conn) \<rparr>"

text \<open>
  The body of the main loop after the traversal: the network is pushed when it has an
  input node, an output node and at least three nodes, and passes
  \<open>validateNetworkSubset\<close>. Reading \<open>type\<close> of \<open>undefined\<close> throws.
\<close>

definition pushNetwork ::
  "node list \<Rightarrow> connection list \<Rightarrow> string list \<Rightarrow> network list \<Rightarrow> jsError + network list" where
  "pushNetwork ns cs networkNodes networks =
     (let objects = networkNodeObjects ns networkNodes
      in if list_ex (\<lambda>x. x = None) objects then Inl TypeError
         else
           (let objs = map the objects;
                hasInput = list_ex (\<lambda>n. ntype n = ''input'') objs;
                hasOutput = list_ex (\<lambda>n. ntype n = ''output'') objs
            in if hasInput \<and> hasOutput \<and> length networkNodes \<ge> 3 then
                 (let networkConnections = inducedConnections cs networkNodes;
                      isValid = validateNetworkSubset objs networkConnections
                  in if isValid then
                       Inr (networks @
                         [\<lparr> netName = ''Network '' @ decimal (length networks + 1),
                            netNodes = map toNetNode objs,
                            netConnections = map toNetConnection networkConnections,
                            nodeCount = length networkNodes,
                            connectionCount = length networkConnections \<rparr>])
                     else Inr networks)
               else Inr networks))"

text \<open>The main loop \<open>for (const node of nodes)\<close>.\<close>

fun findNetworks ::
  "nat \<Rightarrow> node list \<Rightarrow> connection list \<Rightarrow> (string \<rightharpoonup> string list) \<Rightarrow> node list \<Rightarrow>
     (string \<rightharpoonup> bool) \<Rightarrow> network list \<Rightarrow> (jsError + network list) option" where
  "findNetworks depth ns cs adjacencyList [] visitedNodes networks = Some (Inr networks)"
| "findNetworks depth ns cs adjacencyList (n # rest) visitedNodes networks =
     (if visitedNodes (nid n) \<noteq> Some True then
        (case dfs depth adjacencyList (nid n) (visitedNodes, []) of
           None \<Rightarrow> None
         | Some (Inl e) \<Rightarrow> Some (Inl e)
         | Some (Inr st) \<Rightarrow>
             (case pushNetwork ns cs (snd st) networks of
                Inl e \<Rightarrow> Some (Inl e)
              | Inr networks' \<Rightarrow> findNetworks depth ns cs adjacencyList rest (fst st) networks'))
      else findNetworks depth ns cs adjacencyList rest visitedNodes networks)"

text \<open>
  \<open>detectMultipleNetworks()\<close> on the arrays \<open>nodes\<close> and \<open>connections\<close>. The traversal
  never goes deeper than there are nodes, so that is the bound it gets.
\<close>

definition detectMultipleNetworks ::
  "node list \<Rightarrow> connection list \<Rightarrow> (jsError + network list) option" where
  "detectMultipleNetworks ns cs =
     (if length ns = 0 \<or> length cs = 0 then Some (Inr [])
      else
        (case addConnections cs (emptyAdjacency ns) of
           Inl e \<Rightarrow> Some (Inl e)
         | Inr adjacencyList \<Rightarrow>
             findNetworks (length ns) ns cs adjacencyList ns (noneVisited ns) []))"


section \<open>Example canvas\<close>

text \<open>
  Three nodes in a row, as \<open>createNode\<close> numbers them, and the two connections that
  chain them. The agent has its key and model but no name.
\<close>

definition exInput :: node where
  "exInput = \<lparr> nid = ''node-1'', ntype = ''input'', subType = None, position = (0, 0),
     nconfig = Some emptyConfig, outputPortsContainer = None \<rparr>"

definition exAgent :: node where
  "exAgent = \<lparr> nid = ''node-2'', ntype = ''agent'', subType = Some ''openai'',
     position = (200, 0),
     nconfig = Some (emptyConfig\<lparr> apiKey := Some ''sk-1'', model := Some ''gpt-4'' \<rparr>),
     outputPortsContainer = None \<rparr>"

definition exOutput :: node where
  "exOutput = \<lparr> nid = ''node-3'', ntype = ''output'', subType = None, position = (400, 0),
     nconfig = Some emptyConfig, outputPortsContainer = None \<rparr>"

definition outOf :: "string \<Rightarrow> endpoint" where
  "outOf i = \<lparr> nodeId = i, portType = ''output'', portNumber = None, px = 0, py = 0 \<rparr>"

definition inOf :: "string \<Rightarrow> endpoint" where
  "inOf i = \<lparr> nodeId = i, portType = ''input'', portNumber = None, px = 0, py = 0 \<rparr>"

definition exConn12 :: connection where
  "exConn12 = \<lparr> cid = ''connection-node-1-node-2-a'', cstart = outOf ''node-1'',
     cend = inOf ''node-2'', sourceNode = None, sourcePort = None \<rparr>"

definition exConn23 :: connection where
  "exConn23 = \<lparr> cid = ''connection-node-2-node-3-b'', cstart = outOf ''node-2'',
     cend = inOf ''node-3'', sourceNode = None, sourcePort = None \<rparr>"

definition exNodes :: "node list" where
  "exNodes = [exInput, exAgent, exOutput]"

definition exConns :: "connection list" where
  "exConns = [exConn12, exConn23]"

definition exEditor :: editor where
  "exEditor = \<lparr> nodeCounter = 3, nodes = exNodes, connections = exConns,
     selectedNode = Some exAgent, connectionStart = None,
     nodeContainerChildren = [''node-1'', ''node-2'', ''node-3''],
     svgContainerChildren = [''connection-node-1-node-2-a'', ''connection-node-2-node-3-b''] \<rparr>"

text \<open>The cards of the palette that the examples drop on the canvas.\<close>

definition inputCard :: cardData where
  "inputCard = \<lparr> cardType = ''input'', agentType = None, toolType = None \<rparr>"

definition openaiCard :: cardData where
  "openaiCard = \<lparr> cardType = ''agent'', agentType = Some ''openai'', toolType = None \<rparr>"

definition outputCard :: cardData where
  "outputCard = \<lparr> cardType = ''output'', agentType = None, toolType = None \<rparr>"


definition exDroppedAgent :: node where
  "exDroppedAgent = \<lparr> nid = ''node-2'', ntype = ''agent'', subType = Some ''openai'',
     position = (200, 0), nconfig = Some emptyConfig, outputPortsContainer = None \<rparr>"


text \<open>
  Three nodes dropped on the canvas; a gesture starts on the output port of the first,
  the click handler of that node's delete button runs before the gesture ends on the
  input port of the second; then the second is connected to the third.
\<close>

definition exDanglingEvents :: "event list" where
  "exDanglingEvents = [CreateNode 0 0 inputCard, CreateNode 200 0 openaiCard,
     CreateNode 400 0 outputCard, PortMouseDown (outOf ''node-1''), DeleteButton exInput,
     PortMouseUp ''a'' (inOf ''node-2''), PortMouseDown (outOf ''node-2''),
     PortMouseUp ''b'' (inOf ''node-3'')]"

lemmas ex_defs = exInput_def exAgent_def exOutput_def outOf_def inOf_def exConn12_def
  exConn23_def exNodes_def exConns_def emptyConfig_def


section \<open>Notions used in the statements\<close>

text \<open>What the gesture stores: a connection from an output port to an input port of another node.\<close>

definition outputToInput :: "connection \<Rightarrow> bool" where
  "outputToInput c =
     (nodeId (cstart c) \<noteq> nodeId (cend c) \<and> portType (cstart c) = ''output'' \<and>
      portType (cend c) = ''input'')"

text \<open>
  A router with three ports and three rules, and a connection that leaves its third
  port (number 2) as the gesture stores it.
\<close>

definition exRouter3 :: node where
  "exRouter3 = \<lparr> nid = ''node-4'', ntype = ''router'', subType = None, position = (0, 0),
     nconfig = Some (routerDefaults\<lparr> outputPorts := Some 3,
       keywordPatterns := Some
         [\<lparr> keyword = ''.*'', port = 0, originalType = ''regex'', originalValue = ''.*'' \<rparr>,
          \<lparr> keyword = ''.*question.*'', port = 1, originalType = ''regex'',
            originalValue = ''.*question.*'' \<rparr>,
          \<lparr> keyword = ''start2'', port = 2, originalType = ''startsWith'',
            originalValue = ''start2'' \<rparr>] \<rparr>),
     outputPortsContainer = Some [0, 1, 2] \<rparr>"

definition exConnPort2 :: connection where
  "exConnPort2 = \<lparr> cid = ''connection-node-4-node-3-c'',
     cstart = \<lparr> nodeId = ''node-4'', portType = ''output'', portNumber = Some ''2'',
                px = 0, py = 0 \<rparr>,
     cend = inOf ''node-3'', sourceNode = None, sourcePort = None \<rparr>"

text \<open>
  What the three operations keep: the count is at least 2, there are no more rules than
  ports, the rule at position \<open>i\<close> routes to port \<open>i\<close>, and the port elements are
  numbered \<open>0\<close> to \<open>outputPorts - 1\<close>.
\<close>

definition routerInv :: "node \<Rightarrow> bool" where
  "routerInv n =
     (ntype n = ''router'' \<and>
      (case nconfig n of
         None \<Rightarrow> False
       | Some cfg \<Rightarrow>
           (case outputPorts cfg of
              None \<Rightarrow> False
            | Some k \<Rightarrow>
                2 \<le> k \<and> outputPortsContainer n = Some (map int [0..<nat k]) \<and>
                (case keywordPatterns cfg of
                   None \<Rightarrow> False
                 | Some ps \<Rightarrow> int (length ps) \<le> k \<and> map port ps = map int [0..<length ps]))))"

text \<open>After a reconciliation there is one rule per port.\<close>

definition rulesMatchPorts :: "node \<Rightarrow> bool" where
  "rulesMatchPorts n =
     (case nconfig n of
        None \<Rightarrow> False
      | Some cfg \<Rightarrow>
          (case keywordPatterns cfg of
             None \<Rightarrow> False
           | Some ps \<Rightarrow> outputPorts cfg = Some (int (length ps))))"

text \<open>A body whose status is neither \<open>COMPLETED\<close> nor \<open>FAILED\<close>, or a failed request.\<close>

fun pending :: "response \<Rightarrow> bool" where
  "pending (Body status) = (status \<noteq> ''COMPLETED'' \<and> status \<noteq> ''FAILED'')"
| "pending FetchFailed = True"

definition fetches :: "pollEvent list \<Rightarrow> nat" where
  "fetches evs = length (filter (\<lambda>e. e = Fetch) evs)"


text \<open>
  The connections as undirected edges between node ids, and the connected component of a
  node: everything a path of connections reaches from it.
\<close>

definition linked :: "connection list \<Rightarrow> (string \<times> string) set" where
  "linked cs = {(a, b). \<exists>c \<in> set cs.
      (nodeId (cstart c) = a \<and> nodeId (cend c) = b) \<or>
      (nodeId (cstart c) = b \<and> nodeId (cend c) = a)}"

definition component :: "connection list \<Rightarrow> string \<Rightarrow> string set" where
  "component cs v = (linked cs)\<^sup>* `` {v}"

text \<open>
  What the result should hold for a list of components, each a list of node ids, stated
  without the functions of the code: the node objects of a component, the connections
  with both ends in it, the test it must pass, the network built from it, and the
  networks of those that pass, numbered in order from \<open>k + 1\<close>.
\<close>

definition objectsOf :: "node list \<Rightarrow> string list \<Rightarrow> node list" where
  "objectsOf ns part = map (\<lambda>i. the (find (\<lambda>n. nid n = i) ns)) part"

definition induced :: "connection list \<Rightarrow> string list \<Rightarrow> connection list" where
  "induced cs part =
     filter (\<lambda>c. nodeId (cstart c) \<in> set part \<and> nodeId (cend c) \<in> set part) cs"

definition qualifies :: "node list \<Rightarrow> connection list \<Rightarrow> string list \<Rightarrow> bool" where
  "qualifies ns cs part =
     (list_ex (\<lambda>n. ntype n = ''input'') (objectsOf ns part) \<and>
      list_ex (\<lambda>n. ntype n = ''output'') (objectsOf ns part) \<and>
      3 \<le> length part \<and>
      validateNetworkSubset (objectsOf ns part) (induced cs part))"

definition toNetwork :: "node list \<Rightarrow> connection list \<Rightarrow> nat \<Rightarrow> string list \<Rightarrow> network" where
  "toNetwork ns cs k part =
     \<lparr> netName = ''Network '' @ decimal (k + 1),
       netNodes =
         map (\<lambda>n. \<lparr> nnId = nid n, nnType = ntype n, nnSubType = subType n,
                     nnPosition = position n, nnConfig = nconfig n \<rparr>)
           (objectsOf ns part),
       netConnections =
         map (\<lambda>c. \<lparr> ncSourceNode = nodeId (cstart c), ncSourcePort = portType (cstart c),
                     ncTargetNode = nodeId (cend c), ncTargetPort = portType (cend c) \<rparr>)
           (induced cs part),
       nodeCount = length part,
       connectionCount = length (induced cs part) \<rparr>"

fun emitted :: "node list \<Rightarrow> connection list \<Rightarrow> nat \<Rightarrow> string list list \<Rightarrow> network list" where
  "emitted ns cs k [] = []"
| "emitted ns cs k (part # parts) =
     (if qualifies ns cs part then toNetwork ns cs k part # emitted ns cs (Suc k) parts
      else emitted ns cs k parts)"

text \<open>
  For the traversal: the ids marked \<open>true\<close> in \<open>visitedNodes\<close>, the neighbours of an id
  in the adjacency list, and what one call adds to the state. The call appends \<open>new\<close>
  to \<open>networkNodes\<close>: ids that were not visited, now are, were reached from the roots
  of the call, and have all their neighbours visited.
\<close>

definition visitedSet :: "(string \<rightharpoonup> bool) \<Rightarrow> string set" where
  "visitedSet vis = {x. vis x = Some True}"

definition neighbours :: "(string \<rightharpoonup> string list) \<Rightarrow> string \<Rightarrow> string set" where
  "neighbours adj x = (case adj x of None \<Rightarrow> {} | Some ys \<Rightarrow> set ys)"

definition adjRel :: "(string \<rightharpoonup> string list) \<Rightarrow> (string \<times> string) set" where
  "adjRel adj = {(x, y). y \<in> neighbours adj x}"

definition dfsPost ::
  "(string \<rightharpoonup> string list) \<Rightarrow> string set \<Rightarrow> (string \<rightharpoonup> bool) \<Rightarrow> (string \<rightharpoonup> bool) \<Rightarrow>
     string list \<Rightarrow> bool" where
  "dfsPost adj roots vis vis' new =
     (distinct new \<and> set new \<inter> visitedSet vis = {} \<and>
      visitedSet vis' = visitedSet vis \<union> set new \<and> set new \<subseteq> dom adj \<and>
      roots \<subseteq> visitedSet vis' \<and> (\<forall>x \<in> set new. neighbours adj x \<subseteq> visitedSet vis') \<and>
      set new \<subseteq> (adjRel adj)\<^sup>* `` roots)"

section \<open>Agents of an unknown kind\<close>

lemma agentConfigured_unknown:
  assumes "subType n \<notin> {Some ''openai'', Some ''ollama'', Some ''anthropic'',
                         Some ''bedrock'', Some ''custom''}"
  shows "agentConfigured n"
  using assms by (simp add: agentConfigured_def Let_def)

lemma list_ex_append_Cons: "list_ex P (xs @ x # ys) = (list_ex P xs \<or> P x \<or> list_ex P ys)"
  by (induction xs) auto

text \<open>
  C10. An agent node whose subType is none of openai, ollama, anthropic, bedrock and
  custom passes the configuration check of \<open>validateNetworkSubset\<close> whatever its
  config is (an absent config included), and the verdict on a subgraph that contains
  such a node does not depend on that node's config: replacing it by any other config,
  or by none, leaves the result of \<open>validateNetworkSubset\<close> unchanged.
\<close>

theorem unknown_agent_no_config_requirement:
  assumes "ntype n = ''agent''"
    and "subType n \<notin> {Some ''openai'', Some ''ollama'', Some ''anthropic'',
                       Some ''bedrock'', Some ''custom''}"
  shows "agentConfigured (n\<lparr>nconfig := c\<rparr>) \<and>
         validateNetworkSubset (xs @ n\<lparr>nconfig := c\<rparr> # ys) cs =
         validateNetworkSubset (xs @ n\<lparr>nconfig := None\<rparr> # ys) cs"
proof -
  have a: "agentConfigured (n\<lparr>nconfig := c'\<rparr>)" for c'
    using assms(2) by (intro agentConfigured_unknown) simp
  have "validateNetworkSubset (xs @ n\<lparr>nconfig := c'\<rparr> # ys) cs =
        validateNetworkSubset (xs @ n # ys) cs" for c'
    using a [of c'] a [of "nconfig n"]
    by (simp add: validateNetworkSubset_def Let_def list_ex_append_Cons)
  then show ?thesis using a by simp
qed

theorem unknown_agent_no_config_requirement_witness:
  "ntype (exAgent\<lparr>subType := Some ''gemini''\<rparr>) = ''agent'' \<and>
   subType (exAgent\<lparr>subType := Some ''gemini''\<rparr>) \<notin>
     {Some ''openai'', Some ''ollama'', Some ''anthropic'', Some ''bedrock'', Some ''custom''} \<and>
   agentConfigured (exAgent\<lparr>subType := Some ''gemini'', nconfig := Some emptyConfig\<rparr>) \<and>
   validateNetworkSubset [exInput, exAgent\<lparr>subType := Some ''gemini'', nconfig := None\<rparr>, exOutput]
     exConns"
proof -
  let ?n = "exAgent\<lparr>subType := Some ''gemini''\<rparr>"
  have t: "ntype ?n = ''agent''" by (simp add: exAgent_def)
  have u: "subType ?n \<notin>
     {Some ''openai'', Some ''ollama'', Some ''anthropic'', Some ''bedrock'', Some ''custom''}"
    by simp
  have v: "validateNetworkSubset [exInput, ?n, exOutput] exConns"
    by (simp add: validateNetworkSubset_def connectedNodeIds_def agentConfigured_def ex_defs)
  from unknown_agent_no_config_requirement [OF t u, of "nconfig ?n" "[exInput]" "[exOutput]" exConns]
    unknown_agent_no_config_requirement [OF t u, of "Some emptyConfig" "[exInput]" "[exOutput]" exConns]
    t u v
  show ?thesis by simp
qed

section \<open>What the two validators report\<close>

lemma push_append: "push b m errs = errs @ push b m []"
  by (simp add: push_def)







section \<open>Creating connections\<close>

lemma sameEnds_sym: "sameEnds b a c = sameEnds a b c"
  by (auto simp add: sameEnds_def)

lemma find_sameEnds_sym: "find (sameEnds b a) cs = find (sameEnds a b) cs"
proof -
  have "sameEnds b a = sameEnds a b" by (rule ext) (rule sameEnds_sym)
  then show ?thesis by (rule arg_cong)
qed

lemma find_is_None: "(find P xs = None) = (\<not> list_ex P xs)"
  by (induction xs) auto

lemma createConnection_again:
  assumes "s1 = snd (createConnection u a b s)"
  shows "list_ex (sameEnds a b) (connections s1)"
proof (cases "find (sameEnds a b) (connections s)")
  case None
  then show ?thesis using assms
    by (simp add: createConnection_def Let_def list_ex_iff sameEnds_def)
next
  case (Some c)
  then have "list_ex (sameEnds a b) (connections s)"
    using find_is_None [of "sameEnds a b" "connections s"] by simp
  with Some show ?thesis using assms by (simp add: createConnection_def)
qed

lemma createConnection_suppressed:
  assumes "list_ex (sameEnds a b) (connections s)"
  shows "createConnection u a b s = (None, s)" and "createConnection u b a s = (None, s)"
proof -
  from assms obtain c where c: "find (sameEnds a b) (connections s) = Some c"
    using find_is_None [of "sameEnds a b" "connections s"] by auto
  then show "createConnection u a b s = (None, s)"
    by (simp add: createConnection_def)
  from c show "createConnection u b a s = (None, s)"
    by (simp add: createConnection_def find_sameEnds_sym [of a b])
qed

text \<open>
  C5. After \<open>createConnection(a, b)\<close>, a second request between the same two ports, as
  \<open>createConnection(a, b)\<close> or as \<open>createConnection(b, a)\<close>, stores nothing: it
  returns no connection and leaves the store as it was, so the number of connections
  does not change.
\<close>

theorem createConnection_duplicate_noop:
  "createConnection u2 a b (snd (createConnection u1 a b s)) =
     (None, snd (createConnection u1 a b s)) \<and>
   createConnection u2 b a (snd (createConnection u1 a b s)) =
     (None, snd (createConnection u1 a b s)) \<and>
   length (connections (snd (createConnection u2 a b (snd (createConnection u1 a b s))))) =
     length (connections (snd (createConnection u1 a b s))) \<and>
   length (connections (snd (createConnection u2 b a (snd (createConnection u1 a b s))))) =
     length (connections (snd (createConnection u1 a b s)))"
proof -
  have "list_ex (sameEnds a b) (connections (snd (createConnection u1 a b s)))"
    by (rule createConnection_again) simp
  from createConnection_suppressed [OF this] show ?thesis by simp
qed

theorem createConnection_duplicate_noop_witness:
  "length (connections (snd (createConnection ''x'' (outOf ''node-1'') (inOf ''node-3'') exEditor))) = 3 \<and>
   length (connections (snd (createConnection ''y'' (inOf ''node-3'') (outOf ''node-1'')
     (snd (createConnection ''x'' (outOf ''node-1'') (inOf ''node-3'') exEditor))))) = 3"
proof -
  have "length (connections (snd (createConnection ''x'' (outOf ''node-1'') (inOf ''node-3'') exEditor))) = 3"
    by (simp add: createConnection_def sameEnds_def Let_def ex_defs exEditor_def)
  then show ?thesis
    using createConnection_duplicate_noop
      [of "''y''" "outOf ''node-1''" "inOf ''node-3''" "''x''" exEditor]
    by simp
qed

lemma createConnection_connections:
  "connections (snd (createConnection u a b s)) = connections s \<or>
   connections (snd (createConnection u a b s)) =
     connections s @ [\<lparr> cid = ''connection-'' @ nodeId a @ ''-'' @ nodeId b @ ''-'' @ u,
                         cstart = a, cend = b, sourceNode = None, sourcePort = None \<rparr>]"
  by (cases "find (sameEnds a b) (connections s)") (simp_all add: createConnection_def Let_def)

lemma portMouseUp_stores:
  assumes "c \<in> set (connections (portMouseUp u p s))"
  shows "c \<in> set (connections s) \<or>
         (outputToInput c \<and>
          (case connectionStart s of
             None \<Rightarrow> False
           | Some a \<Rightarrow> if portType a = ''input'' then cstart c = p \<and> cend c = a
                       else cstart c = a \<and> cend c = p))"
proof (cases "connectionStart s")
  case None
  with assms show ?thesis by (simp add: portMouseUp_def)
next
  case (Some a)
  show ?thesis
  proof (cases "nodeId a \<noteq> nodeId p \<and>
      ((portType a = ''output'' \<and> portType p = ''input'') \<or>
       (portType a = ''input'' \<and> portType p = ''output''))")
    case False
    with assms Some show ?thesis by (auto simp add: portMouseUp_def)
  next
    case ok: True
    show ?thesis
    proof (cases "portType a = ''input''")
      case True
      with ok have pa: "portType p = ''output''" "nodeId a \<noteq> nodeId p" by auto
      from assms Some ok True
      have "c \<in> set (connections (snd (createConnection u p a s)))"
        by (simp add: portMouseUp_def)
      with createConnection_connections [of u p a s] True pa Some show ?thesis
        by (auto simp add: outputToInput_def)
    next
      case False
      with ok have pa: "portType a = ''output''" "portType p = ''input''" "nodeId a \<noteq> nodeId p"
        by auto
      from assms Some ok False
      have "c \<in> set (connections (snd (createConnection u a p s)))"
        by (simp add: portMouseUp_def)
      with createConnection_connections [of u a p s] False pa Some show ?thesis
        by (auto simp add: outputToInput_def)
    qed
  qed
qed

lemma removeRelated_subset: "set (snd (snd (removeRelated rel st))) \<subseteq> set (snd st)"
proof (induction rel arbitrary: st)
  case Nil
  then show ?case by simp
next
  case (Cons conn rel)
  show ?case
  proof (cases "cid conn \<in> set (fst st)")
    case True
    with Cons.IH [of "(remove1 (cid conn) (fst st), filter (\<lambda>c. cid c \<noteq> cid conn) (snd st))"]
    show ?thesis by auto
  next
    case False
    then show ?thesis by simp
  qed
qed

lemma deleteButton_connections:
  "connections (snd (deleteButton n s)) =
     snd (snd (removeRelated
       (filter (\<lambda>conn. nodeId (cstart conn) = nid n \<or> nodeId (cend conn) = nid n) (connections s))
       (svgContainerChildren s, connections s)))"
  by (simp add: deleteButton_def Let_def split: option.splits)

lemma deleteSelected_connections:
  "connections (snd (deleteSelected i s)) =
     (case selectedNode s of
        Some n \<Rightarrow>
          snd (snd (removeRelated
            (filter (\<lambda>conn. nodeId (cstart conn) = nid n \<or> nodeId (cend conn) = nid n)
               (connections s))
            (svgContainerChildren s, connections s)))
      | None \<Rightarrow>
          (case i of
             Some j \<Rightarrow> if j \<in> set (svgContainerChildren s)
                       then filter (\<lambda>c. cid c \<noteq> j) (connections s) else connections s
           | None \<Rightarrow> connections s))"
  by (simp add: deleteSelected_def Let_def split: option.splits)

lemma deleteButton_connections_subset:
  "set (connections (snd (deleteButton n s))) \<subseteq> set (connections s)"
  using removeRelated_subset
    [of "filter (\<lambda>conn. nodeId (cstart conn) = nid n \<or> nodeId (cend conn) = nid n) (connections s)"
        "(svgContainerChildren s, connections s)"]
  by (simp add: deleteButton_connections)

lemma deleteSelected_connections_subset:
  "set (connections (snd (deleteSelected i s))) \<subseteq> set (connections s)"
proof (cases "selectedNode s")
  case None
  then show ?thesis by (auto simp add: deleteSelected_connections split: option.splits)
next
  case (Some n)
  with removeRelated_subset
    [of "filter (\<lambda>conn. nodeId (cstart conn) = nid n \<or> nodeId (cend conn) = nid n) (connections s)"
        "(svgContainerChildren s, connections s)"]
  show ?thesis by (simp add: deleteSelected_connections)
qed

lemma handle_connections_subset:
  assumes "c \<in> set (connections (handle s e))"
  shows "c \<in> set (connections s) \<or> outputToInput c"
proof (cases e)
  case (PortMouseUp u p)
  with assms portMouseUp_stores [of c u p s] show ?thesis by auto
next
  case (DeleteButton n)
  with assms deleteButton_connections_subset [of n s] show ?thesis by auto
next
  case (DeleteSelected i)
  with assms deleteSelected_connections_subset [of i s] show ?thesis by auto
qed (use assms in \<open>simp_all add: portMouseDown_def windowMouseUp_def deleteConnection_def
       createNode_def addInputNode_def addOutputNode_def deselectAllNodes_def Let_def
       split: if_splits\<close>)

lemma foldl_handle_connections:
  assumes "c \<in> set (connections (foldl handle s evs))"
  shows "c \<in> set (connections s) \<or> outputToInput c"
  using assms
proof (induction evs arbitrary: s)
  case Nil
  then show ?case by simp
next
  case (Cons e evs)
  from Cons.IH [of "handle s e"] Cons.prems
  have "c \<in> set (connections (handle s e)) \<or> outputToInput c" by simp
  with handle_connections_subset [of c s e] show ?case by blast
qed

text \<open>
  C6. Whatever the user does, starting from the empty canvas, every stored connection
  joins two different nodes and leads from an output port to an input port. A gesture
  adds at most a connection of that kind, and when it started on an input port the
  stored connection starts at the port where the gesture ended and ends at the port
  where it started: the two ends are swapped before insertion.
\<close>

theorem gesture_stores_output_to_input:
  "(c \<in> set (connections (run evs)) \<longrightarrow> outputToInput c) \<and>
   (c \<in> set (connections (portMouseUp u p s)) \<longrightarrow>
      c \<in> set (connections s) \<or>
      (outputToInput c \<and>
       (case connectionStart s of
          None \<Rightarrow> False
        | Some a \<Rightarrow> if portType a = ''input'' then cstart c = p \<and> cend c = a
                    else cstart c = a \<and> cend c = p)))"
proof -
  have "outputToInput c" if "c \<in> set (connections (run evs))"
    using foldl_handle_connections [of c initialEditor evs] that
    by (simp add: run_def initialEditor_def)
  then show ?thesis using portMouseUp_stores [of c u p s] by blast
qed

theorem gesture_stores_output_to_input_witness:
  "connections (run [CreateNode 0 0 inputCard, CreateNode 200 0 openaiCard,
      PortMouseDown (inOf ''node-2''), PortMouseUp ''a'' (outOf ''node-1'')]) = [exConn12] \<and>
   outputToInput exConn12 \<and> cstart exConn12 = outOf ''node-1'' \<and> cend exConn12 = inOf ''node-2''"
proof -
  let ?evs = "[CreateNode 0 0 inputCard, CreateNode 200 0 openaiCard,
      PortMouseDown (inOf ''node-2''), PortMouseUp ''a'' (outOf ''node-1'')]"
  have r: "connections (run ?evs) = [exConn12]"
    by (simp add: run_def initialEditor_def createNode_def portMouseDown_def portMouseUp_def
          createConnection_def Let_def inOf_def outOf_def exConn12_def)
  then have "exConn12 \<in> set (connections (run ?evs))" by simp
  with gesture_stores_output_to_input [of exConn12 ?evs "''a''" "outOf ''node-1''" initialEditor]
  have "outputToInput exConn12" by blast
  with r show ?thesis by (simp add: exConn12_def)
qed

section \<open>Deleting a node\<close>














lemma decimal_1_2_3:
  "decimal (Suc 0) = ''1''" "decimal (Suc (Suc 0)) = ''2''" "decimal (Suc (Suc (Suc 0))) = ''3''"
proof -
  have "decimal 1 = ''1''" "decimal 2 = ''2''" "decimal 3 = ''3''" by code_simp+
  then show "decimal (Suc 0) = ''1''" "decimal (Suc (Suc 0)) = ''2''"
    "decimal (Suc (Suc (Suc 0))) = ''3''"
    by (simp_all add: numeral_2_eq_2 numeral_3_eq_3)
qed




section \<open>Removing a router port\<close>

text \<open>
  C8. On a router whose \<open>outputPorts\<close> is 2 or less, \<open>removeOutputPort\<close> returns
  \<open>false\<close> and changes nothing: the node, with its config and its port elements, and
  the connections are what they were.
\<close>

theorem removeOutputPort_rejected_at_minimum:
  assumes "ntype n = ''router''" and "nconfig n = Some cfg"
    and "outputPorts cfg = Some k" and "k \<le> 2"
  shows "removeOutputPort p (Some n, cs) = (False, Some n, cs)"
  using assms by (simp add: removeOutputPort_def outputPortsOr2_def)

theorem removeOutputPort_rejected_at_minimum_witness:
  "ntype (newRouter ''node-4'' (0, 0)) = ''router'' \<and>
   nconfig (newRouter ''node-4'' (0, 0)) = Some routerDefaults \<and>
   outputPorts routerDefaults = Some 2 \<and>
   removeOutputPort 1 (Some (newRouter ''node-4'' (0, 0)), exConns) =
     (False, Some (newRouter ''node-4'' (0, 0)), exConns)"
proof -
  have a: "ntype (newRouter ''node-4'' (0, 0)) = ''router''"
    and b: "nconfig (newRouter ''node-4'' (0, 0)) = Some routerDefaults"
    by (simp_all add: newRouter_def)
  have c: "outputPorts routerDefaults = Some 2"
    by (simp add: routerDefaults_def)
  from removeOutputPort_rejected_at_minimum [OF a b c, of 1 exConns] a b c
  show ?thesis by simp
qed

text \<open>
  C9 on the router \<open>exRouter3\<close>, with three ports and three rules, and the connection
  \<open>exConnPort2\<close> that leaves its port 2. \<open>removeOutputPort(2)\<close> succeeds, removes the
  rule of port 2 and the port element, and lowers the count to 2, but the connection
  that leaves the removed port is still in the store. The router is one that the
  operations themselves build, and the connection is one that \<open>createConnection\<close>
  stores.
\<close>

theorem removeOutputPort_keeps_connection_of_removed_port:
  "removeOutputPort 2 (Some exRouter3, [exConnPort2]) =
     (True, Some (newRouter ''node-4'' (0, 0)), [exConnPort2]) \<and>
   applyOps (Some (newRouter ''node-4'' (0, 0)), []) [AddOutputPort, Reconcile] =
     Inr (Some exRouter3, []) \<and>
   createConnection ''c'' (cstart exConnPort2) (cend exConnPort2) initialEditor =
     (Some exConnPort2,
      initialEditor\<lparr> svgContainerChildren := [''connection-node-4-node-3-c''],
        connections := [exConnPort2] \<rparr>)"
proof -
  have a: "removeOutputPort 2 (Some exRouter3, [exConnPort2]) =
     (True, Some (newRouter ''node-4'' (0, 0)), [exConnPort2])"
    by (simp add: removeOutputPort_def outputPortsOr2_def exRouter3_def exConnPort2_def
          routerDefaults_def emptyConfig_def newRouter_def onPort_def shiftPort_def Let_def)
  have "decimal 2 = ''2''" by code_simp
  then have d: "decimal (Suc (Suc 0)) = ''2''" by (simp add: numeral_2_eq_2)
  have b: "applyOps (Some (newRouter ''node-4'' (0, 0)), []) [AddOutputPort, Reconcile] =
     Inr (Some exRouter3, [])"
    by (simp add: d addNewOutputPort_def ensurePatternsMatchOutputPorts_def outputPortsOr2_def
          exRouter3_def routerDefaults_def emptyConfig_def newRouter_def Let_def
          placeholder_def placeholderType_def upt_rec)
  have c: "createConnection ''c'' (cstart exConnPort2) (cend exConnPort2) initialEditor =
     (Some exConnPort2,
      initialEditor\<lparr> svgContainerChildren := [''connection-node-4-node-3-c''],
        connections := [exConnPort2] \<rparr>)"
    by (simp add: createConnection_def initialEditor_def exConnPort2_def inOf_def Let_def)
  from a b c show ?thesis by simp
qed

text \<open>
  The divergence does not depend on the input: a connection object as
  \<open>createConnection\<close> builds it defines neither \<open>sourceNode\<close> nor \<open>sourcePort\<close>, every
  connection of the store is such an object, and \<open>removeOutputPort\<close> leaves a store of
  such objects as it is.
\<close>

lemma stored_connections_have_no_sourceNode:
  "list_all (\<lambda>c. sourceNode c = None) (connections (run evs))"
proof -
  have step: "list_all (\<lambda>c. sourceNode c = None) (connections (handle s e))"
    if "list_all (\<lambda>c. sourceNode c = None) (connections s)" for s e
  proof (cases e)
    case (PortMouseUp u p)
    have "list_all (\<lambda>c. sourceNode c = None) (connections (snd (createConnection u a b s)))"
      for a b
      using that createConnection_connections [of u a b s] by auto
    with that PortMouseUp show ?thesis
      by (simp add: portMouseUp_def Let_def split: option.splits)
  next
    case (DeleteButton n)
    with that deleteButton_connections_subset [of n s] show ?thesis
      by (auto simp add: list_all_iff)
  next
    case (DeleteSelected i)
    with that deleteSelected_connections_subset [of i s] show ?thesis
      by (auto simp add: list_all_iff)
  qed (use that in \<open>simp_all add: portMouseDown_def windowMouseUp_def deleteConnection_def
         createNode_def addInputNode_def addOutputNode_def deselectAllNodes_def Let_def
         list_all_iff split: if_splits\<close>)
  have "list_all (\<lambda>c. sourceNode c = None) (connections (foldl handle s evs))"
    if "list_all (\<lambda>c. sourceNode c = None) (connections s)" for s
    using that by (induction evs arbitrary: s) (simp_all add: step)
  from this [of initialEditor] show ?thesis by (simp add: run_def initialEditor_def)
qed

lemma removeOutputPort_never_touches_stored_connections:
  assumes "list_all (\<lambda>c. sourceNode c = None) cs"
  shows "snd (snd (removeOutputPort p (sel, cs))) = cs"
proof -
  from assms have none: "filter (onPort i p) cs = []" for i
    by (induction cs) (simp_all add: onPort_def)
  from assms have same: "map (shiftPort i p) cs = cs" for i
    by (induction cs) (simp_all add: shiftPort_def split: option.splits)
  show ?thesis
    by (simp add: removeOutputPort_def Let_def none same split: option.splits)
qed

section \<open>The router invariant\<close>

lemma routerInvI:
  assumes "ntype n = ''router''" "nconfig n = Some cfg" "outputPorts cfg = Some k" "2 \<le> k"
    "outputPortsContainer n = Some (map int [0..<nat k])" "keywordPatterns cfg = Some ps"
    "int (length ps) \<le> k" "map port ps = map int [0..<length ps]"
  shows "routerInv n"
  using assms by (simp add: routerInv_def)

lemma routerInvE:
  assumes "routerInv n"
  obtains cfg k ps where "ntype n = ''router''" "nconfig n = Some cfg" "outputPorts cfg = Some k"
    "2 \<le> k" "outputPortsContainer n = Some (map int [0..<nat k])" "keywordPatterns cfg = Some ps"
    "int (length ps) \<le> k" "map port ps = map int [0..<length ps]"
  using assms by (auto simp add: routerInv_def split: option.splits)

lemma numbered_length:
  assumes "map port ps = map int [0..<j]"
  shows "map port ps = map int [0..<length ps]"
proof -
  from assms have "length (map port ps) = length (map int [0..<j])" by simp
  then have "length ps = j" by simp
  with assms show ?thesis by simp
qed

lemma numbered_nth:
  assumes "map port ps = map int [0..<length ps]" "i < length ps"
  shows "port (ps ! i) = int i"
proof -
  from assms(2) have "port (ps ! i) = map port ps ! i" by simp
  also have "\<dots> = map int [0..<length ps] ! i" using assms(1) by simp
  also have "\<dots> = int i" using assms(2) by simp
  finally show ?thesis .
qed

lemma nth_numbered:
  assumes "\<And>i. i < length ps \<Longrightarrow> port (ps ! i) = int i"
  shows "map port ps = map int [0..<length ps]"
  by (rule nth_equalityI) (simp_all add: assms)

text \<open>Removing number \<open>p\<close> from \<open>0, ..., m - 1\<close> and closing the gap.\<close>

lemma renumber_upt:
  assumes "0 \<le> p"
  shows "map (\<lambda>k. if k > p then k - 1 else k) (remove1 p (map int [0..<m])) =
         map int [0..<(if p < int m then m - 1 else m)]"
proof (induction m)
  case 0
  then show ?case by simp
next
  case (Suc m)
  consider "p < int m" | "p = int m" | "int m < p" by linarith
  then show ?case
  proof cases
    case 1
    then have "p \<in> set (map int [0..<m])" using assms by (auto simp add: image_iff intro: bexI [of _ "nat p"])
    then have "remove1 p (map int [0..<Suc m]) = remove1 p (map int [0..<m]) @ [int m]"
      by (simp add: remove1_append)
    with Suc 1 assms show ?thesis
      by (cases m) simp_all
  next
    case 2
    then have "p \<notin> set (map int [0..<m])" by auto
    then have "remove1 p (map int [0..<Suc m]) = map int [0..<m]"
      using 2 by (simp add: remove1_append)
    with 2 show ?thesis by simp
  next
    case 3
    then have "p \<notin> set (map int [0..<Suc m])" by auto
    then have "remove1 p (map int [0..<Suc m]) = map int [0..<Suc m]"
      by (rule remove1_idem)
    with 3 show ?thesis by simp
  qed
qed

lemma map_port_removeFirst:
  "map port (removeFirst (\<lambda>pat. port pat = p) ps) = remove1 p (map port ps)"
  by (induction ps) auto

lemma map_port_shift:
  "map port (map (\<lambda>pat. if port pat > p then pat\<lparr> port := port pat - 1 \<rparr> else pat) ps) =
   map (\<lambda>k. if k > p then k - 1 else k) (map port ps)"
  by (induction ps) auto

lemma length_removeFirst_le: "length (removeFirst P xs) \<le> length xs"
  by (induction xs) auto

lemma upt_split: "i \<le> j \<Longrightarrow> [0..<i] @ [i..<j] = [0..<j]"
  using upt_add_eq_append [of 0 i "j - i"] by simp

lemma port_placeholder: "port (placeholder i) = int i"
  by (simp add: placeholder_def Let_def)

lemma add_keeps_inv:
  assumes "routerInv n"
  shows "\<exists>k n'. addNewOutputPort (Some n) = Inr (k, Some n') \<and> routerInv n'"
proof -
  from assms obtain cfg k ps where h: "ntype n = ''router''" "nconfig n = Some cfg"
    "outputPorts cfg = Some k" "2 \<le> k" "outputPortsContainer n = Some (map int [0..<nat k])"
    "keywordPatterns cfg = Some ps" "int (length ps) \<le> k" "map port ps = map int [0..<length ps]"
    by (rule routerInvE)
  let ?n' = "n\<lparr> nconfig := Some (cfg\<lparr> outputPorts := Some (k + 1) \<rparr>),
                outputPortsContainer := Some (map int [0..<nat k] @ [k]) \<rparr>"
  from h have c: "outputPortsOr2 cfg = k" by (simp add: outputPortsOr2_def)
  have r: "addNewOutputPort (Some n) = Inr (k, Some ?n')"
    using h c by (simp add: addNewOutputPort_def Let_def)
  from h(4) have "nat (k + 1) = Suc (nat k)" by simp
  then have u: "map int [0..<nat (k + 1)] = map int [0..<nat k] @ [k]" using h(4) by simp
  have "routerInv ?n'"
    by (rule routerInvI [where cfg = "cfg\<lparr> outputPorts := Some (k + 1) \<rparr>" and k = "k + 1" and ps = ps])
       (use h u in simp_all)
  with r show ?thesis by blast
qed

lemma remove_keeps_inv:
  assumes "routerInv n"
  shows "\<exists>n'. fst (snd (removeOutputPort p (Some n, cs))) = Some n' \<and> routerInv n'"
proof -
  from assms obtain cfg k ps where h: "ntype n = ''router''" "nconfig n = Some cfg"
    "outputPorts cfg = Some k" "2 \<le> k" "outputPortsContainer n = Some (map int [0..<nat k])"
    "keywordPatterns cfg = Some ps" "int (length ps) \<le> k" "map port ps = map int [0..<length ps]"
    by (rule routerInvE)
  from h have c: "outputPortsOr2 cfg = k" by (simp add: outputPortsOr2_def)
  show ?thesis
  proof (cases "k \<le> 2 \<or> p \<notin> set (map int [0..<nat k])")
    case True
    then have "fst (snd (removeOutputPort p (Some n, cs))) = Some n"
      using h c by (auto simp add: removeOutputPort_def Let_def)
    with assms show ?thesis by simp
  next
    case False
    then have k: "2 < k" and p: "0 \<le> p" "p < k" by auto
    let ?dec = "\<lambda>q. if q > p then q - 1 else q"
    let ?ps' = "map (\<lambda>pat. if port pat > p then pat\<lparr> port := port pat - 1 \<rparr> else pat)
                  (removeFirst (\<lambda>pat. port pat = p) ps)"
    let ?cfg' = "cfg\<lparr> outputPorts := Some (k - 1), keywordPatterns := Some ?ps' \<rparr>"
    let ?n' = "n\<lparr> nconfig := Some ?cfg',
                  outputPortsContainer := Some (map ?dec (remove1 p (map int [0..<nat k]))) \<rparr>"
    have r: "fst (snd (removeOutputPort p (Some n, cs))) = Some ?n'"
      using h c False by (simp add: removeOutputPort_def Let_def)
    have cont: "map ?dec (remove1 p (map int [0..<nat k])) = map int [0..<nat (k - 1)]"
    proof -
      have "nat k - 1 = nat (k - 1)" by simp
      with renumber_upt [OF p(1), of "nat k"] p(2) show ?thesis by simp
    qed
    have "map port ?ps' = map ?dec (remove1 p (map int [0..<length ps]))"
      by (simp only: map_port_shift map_port_removeFirst h(8))
    also have "\<dots> = map int [0..<(if p < int (length ps) then length ps - 1 else length ps)]"
      by (rule renumber_upt [OF p(1)])
    finally have num: "map port ?ps' = map int [0..<(if p < int (length ps) then length ps - 1 else length ps)]" .
    then have "length (map port ?ps') =
               length (map int [0..<(if p < int (length ps) then length ps - 1 else length ps)])"
      by (rule arg_cong)
    then have len: "length ?ps' = (if p < int (length ps) then length ps - 1 else length ps)"
      by (simp del: map_map)
    have le: "int (length ?ps') \<le> k - 1"
    proof (cases "p < int (length ps)")
      case True
      with p(1) have "0 < length ps" by auto
      then have "int (length ps - 1) = int (length ps) - 1" by (cases ps) simp_all
      with True len h(7) show ?thesis by simp
    next
      case False
      with len p(2) show ?thesis by simp
    qed
    have "routerInv ?n'"
      by (rule routerInvI [where cfg = ?cfg' and k = "k - 1" and ps = ?ps'])
         (use h k cont le numbered_length [OF num] in simp_all)
    with r show ?thesis by blast
  qed
qed

lemma reconcile_restores:
  assumes "routerInv n"
  shows "\<exists>n'. ensurePatternsMatchOutputPorts (Some n) = Some n' \<and> routerInv n' \<and> rulesMatchPorts n'"
proof -
  from assms obtain cfg k ps where h: "ntype n = ''router''" "nconfig n = Some cfg"
    "outputPorts cfg = Some k" "2 \<le> k" "outputPortsContainer n = Some (map int [0..<nat k])"
    "keywordPatterns cfg = Some ps" "int (length ps) \<le> k" "map port ps = map int [0..<length ps]"
    by (rule routerInvE)
  from h have c: "max 2 (outputPortsOr2 cfg) = k" by (simp add: outputPortsOr2_def)
  show ?thesis
  proof (cases "int (length ps) = k")
    case True
    then have "ensurePatternsMatchOutputPorts (Some n) = Some n"
      using h c by (simp add: ensurePatternsMatchOutputPorts_def Let_def)
    moreover have "rulesMatchPorts n" using h True by (simp add: rulesMatchPorts_def)
    ultimately show ?thesis using assms by simp
  next
    case False
    with h(7) have lt: "int (length ps) < k" by simp
    let ?ps' = "ps @ map placeholder [length ps..<nat k]"
    let ?cfg' = "cfg\<lparr> keywordPatterns := Some ?ps', outputPorts := Some k \<rparr>"
    let ?n' = "n\<lparr> nconfig := Some ?cfg' \<rparr>"
    have r: "ensurePatternsMatchOutputPorts (Some n) = Some ?n'"
      using h c False lt by (simp add: ensurePatternsMatchOutputPorts_def Let_def)
    have len: "length ?ps' = nat k" using lt by simp
    have "map port ?ps' = map int [0..<length ps] @ map int [length ps..<nat k]"
      using h(8) by (simp add: port_placeholder comp_def)
    also have "\<dots> = map int [0..<nat k]"
      using upt_split [of "length ps" "nat k"] lt by (simp flip: map_append)
    finally have num: "map port ?ps' = map int [0..<nat k]" .
    have "routerInv ?n'"
      by (rule routerInvI [where cfg = ?cfg' and k = k and ps = ?ps'])
         (use h len numbered_length [OF num] in simp_all)
    moreover have "rulesMatchPorts ?n'"
      using h(4) len by (simp add: rulesMatchPorts_def)
    ultimately show ?thesis using r by blast
  qed
qed

lemma applyOp_keeps_inv:
  assumes "routerInv n"
  shows "\<exists>n' cs'. applyOp (Some n, cs) x = Inr (Some n', cs') \<and> routerInv n' \<and>
           (x = Reconcile \<longrightarrow> rulesMatchPorts n')"
proof (cases x)
  case AddOutputPort
  with add_keeps_inv [OF assms] show ?thesis by auto
next
  case (RemoveOutputPort p)
  from remove_keeps_inv [OF assms, of p cs] obtain n'
    where "fst (snd (removeOutputPort p (Some n, cs))) = Some n'" "routerInv n'" by blast
  then have "applyOp (Some n, cs) (RemoveOutputPort p) =
             Inr (Some n', snd (snd (removeOutputPort p (Some n, cs))))"
    by (simp add: prod_eq_iff)
  with RemoveOutputPort \<open>routerInv n'\<close> show ?thesis by auto
next
  case Reconcile
  with reconcile_restores [OF assms] show ?thesis by auto
qed

lemma applyOps_keeps_inv:
  assumes "routerInv n"
  shows "\<exists>n' cs'. applyOps (Some n, cs) ops = Inr (Some n', cs') \<and> routerInv n' \<and>
           (ops \<noteq> [] \<and> last ops = Reconcile \<longrightarrow> rulesMatchPorts n')"
  using assms
proof (induction ops arbitrary: n cs)
  case Nil
  then show ?case by simp
next
  case (Cons x xs)
  from applyOp_keeps_inv [OF Cons.prems, of cs x] obtain n1 cs1
    where s: "applyOp (Some n, cs) x = Inr (Some n1, cs1)" "routerInv n1"
      "x = Reconcile \<longrightarrow> rulesMatchPorts n1" by blast
  from Cons.IH [OF s(2), of cs1] obtain n' cs'
    where t: "applyOps (Some n1, cs1) xs = Inr (Some n', cs')" "routerInv n'"
      "xs \<noteq> [] \<and> last xs = Reconcile \<longrightarrow> rulesMatchPorts n'" by blast
  show ?case
  proof (cases "xs = []")
    case True
    with s t show ?thesis by auto
  next
    case False
    with s t show ?thesis by auto
  qed
qed

text \<open>
  C3, as the code has it. On a router whose count is at least 2, whose port elements
  are numbered from 0 and whose rules, no more than ports, sit at the positions of
  their ports, \<open>addNewOutputPort\<close> returns the old count as the number of the new
  port, raises the count by one and appends the port element; it leaves the rule list
  as it is. After every sequence of \<open>addNewOutputPort\<close>, \<open>removeOutputPort\<close> and
  \<open>ensurePatternsMatchOutputPorts\<close> the count is still at least 2, there are at most
  as many rules as ports, and the rule at position \<open>i\<close> routes to port \<open>i\<close>; when
  the last operation was the reconciliation there is exactly one rule per port. The
  routing strategy plays no part.
\<close>

theorem router_operations_keep_numbering:
  assumes "ntype n = ''router''" and "nconfig n = Some cfg" and "outputPorts cfg = Some k"
    and "2 \<le> k" and "outputPortsContainer n = Some (map int [0..<nat k])"
    and "keywordPatterns cfg = Some ps" and "int (length ps) \<le> k"
    and "\<forall>i<length ps. port (ps ! i) = int i"
  shows "addNewOutputPort (Some n) =
           Inr (k, Some (n\<lparr> nconfig := Some (cfg\<lparr> outputPorts := Some (k + 1) \<rparr>),
                            outputPortsContainer := Some (map int [0..<nat k] @ [k]) \<rparr>)) \<and>
         (\<exists>n' cs' cfg' k' ps'.
            applyOps (Some n, cs) ops = Inr (Some n', cs') \<and> nconfig n' = Some cfg' \<and>
            outputPorts cfg' = Some k' \<and> 2 \<le> k' \<and> keywordPatterns cfg' = Some ps' \<and>
            int (length ps') \<le> k' \<and> (\<forall>i<length ps'. port (ps' ! i) = int i) \<and>
            (ops \<noteq> [] \<and> last ops = Reconcile \<longrightarrow> int (length ps') = k'))"
proof -
  have c: "outputPortsOr2 cfg = k" using assms by (simp add: outputPortsOr2_def)
  have add: "addNewOutputPort (Some n) =
           Inr (k, Some (n\<lparr> nconfig := Some (cfg\<lparr> outputPorts := Some (k + 1) \<rparr>),
                            outputPortsContainer := Some (map int [0..<nat k] @ [k]) \<rparr>))"
    using assms c by (simp add: addNewOutputPort_def Let_def)
  have "map port ps = map int [0..<length ps]"
    using assms(8) by (intro nth_numbered) simp
  with assms have "routerInv n" by (intro routerInvI)
  from applyOps_keeps_inv [OF this, of cs ops] obtain n' cs'
    where r: "applyOps (Some n, cs) ops = Inr (Some n', cs')" "routerInv n'"
      "ops \<noteq> [] \<and> last ops = Reconcile \<longrightarrow> rulesMatchPorts n'" by blast
  from r(2) obtain cfg' k' ps' where h: "nconfig n' = Some cfg'" "outputPorts cfg' = Some k'"
    "2 \<le> k'" "keywordPatterns cfg' = Some ps'" "int (length ps') \<le> k'"
    "map port ps' = map int [0..<length ps']"
    by (rule routerInvE)
  have "\<forall>i<length ps'. port (ps' ! i) = int i"
    using numbered_nth [OF h(6)] by simp
  moreover have "ops \<noteq> [] \<and> last ops = Reconcile \<longrightarrow> int (length ps') = k'"
    using r(3) h by (simp add: rulesMatchPorts_def)
  ultimately show ?thesis using add r(1) h by blast
qed

theorem router_operations_keep_numbering_witness:
  "addNewOutputPort (Some (newRouter ''node-4'' (0, 0))) =
     Inr (2, Some (newRouter ''node-4'' (0, 0)
       \<lparr> nconfig := Some (routerDefaults\<lparr> outputPorts := Some 3 \<rparr>),
         outputPortsContainer := Some [0, 1, 2] \<rparr>)) \<and>
   (\<exists>n' cs' cfg' k' ps'.
      applyOps (Some (newRouter ''node-4'' (0, 0)), [])
        [AddOutputPort, AddOutputPort, Reconcile, RemoveOutputPort 1, Reconcile] =
        Inr (Some n', cs') \<and>
      nconfig n' = Some cfg' \<and> outputPorts cfg' = Some k' \<and> 2 \<le> k' \<and>
      keywordPatterns cfg' = Some ps' \<and> int (length ps') = k' \<and>
      (\<forall>i<length ps'. port (ps' ! i) = int i))"
proof -
  let ?n = "newRouter ''node-4'' (0, 0)"
  let ?ps = "[\<lparr> keyword = ''.*'', port = 0, originalType = ''regex'', originalValue = ''.*'' \<rparr>,
        \<lparr> keyword = ''.*question.*'', port = 1, originalType = ''regex'',
          originalValue = ''.*question.*'' \<rparr>]"
  have a: "ntype ?n = ''router''" and b: "nconfig ?n = Some routerDefaults"
    and e: "outputPortsContainer ?n = Some (map int [0..<nat 2])"
    by (simp_all add: newRouter_def upt_rec)
  have c: "outputPorts routerDefaults = Some 2" and f: "keywordPatterns routerDefaults = Some ?ps"
    by (simp_all add: routerDefaults_def)
  have g: "int (length ?ps) \<le> 2" by simp
  have i: "\<forall>i<length ?ps. port (?ps ! i) = int i"
    by (simp add: less_Suc_eq numeral_2_eq_2)
  have u: "map int [0..<nat 2] @ [2] = [0, 1, 2]" by (simp add: upt_rec)
  have last: "last [AddOutputPort, AddOutputPort, Reconcile, RemoveOutputPort 1, Reconcile] = Reconcile"
    by simp
  from router_operations_keep_numbering [OF a b c _ e f g i, of "[]"
      "[AddOutputPort, AddOutputPort, Reconcile, RemoveOutputPort 1, Reconcile]"] u last
  show ?thesis by (simp only: list.distinct not_False_eq_True simp_thms) auto
qed

text \<open>
  C3 as stated fails on the router that \<open>createNode\<close> builds: after one
  \<open>addNewOutputPort\<close> the count is 3 and the rule list still has its two rules.
\<close>

theorem addNewOutputPort_appends_no_rule_counterexample:
  "applyOps (Some (newRouter ''node-4'' (0, 0)), []) [AddOutputPort] =
     Inr (Some (newRouter ''node-4'' (0, 0)
       \<lparr> nconfig := Some (routerDefaults\<lparr> outputPorts := Some 3 \<rparr>),
         outputPortsContainer := Some [0, 1, 2] \<rparr>), []) \<and>
   routingStrategy routerDefaults = Some ''keyword'' \<and>
   outputPorts (routerDefaults\<lparr> outputPorts := Some 3 \<rparr>) = Some 3 \<and>
   map_option length (keywordPatterns (routerDefaults\<lparr> outputPorts := Some 3 \<rparr>)) = Some 2"
  by (simp add: addNewOutputPort_def outputPortsOr2_def newRouter_def routerDefaults_def Let_def)

section \<open>The poll loop\<close>

lemma checkStatus_running:
  assumes "\<And>k. server k = Body ''RUNNING''" and "c < 60"
  shows "checkStatus server i c =
         concat (replicate (59 - c) [Fetch, SetTimeout i]) @ [Fetch, Timeout, RunAgain]"
  using assms(2)
proof (induction "59 - c" arbitrary: c)
  case 0
  then have "c = 59" by simp
  then show ?case
    by (subst checkStatus.simps) (simp add: assms(1) maxPolls_def)
next
  case (Suc d)
  then have c: "c < 59" and d: "d = 59 - Suc c" by simp_all
  from Suc.hyps(1) [OF d] c
  have "checkStatus server i (Suc c) =
        concat (replicate (59 - Suc c) [Fetch, SetTimeout i]) @ [Fetch, Timeout, RunAgain]"
    by simp
  moreover have "59 - c = Suc (59 - Suc c)" using c by simp
  ultimately show ?case
    using c by (subst checkStatus.simps) (simp add: assms(1) maxPolls_def)
qed

lemma checkStatus_fetches:
  assumes "\<And>k. pending (server k)" and "c < 60"
  shows "fetches (checkStatus server i c) = 60 - c"
  using assms(2)
proof (induction "59 - c" arbitrary: c)
  case 0
  then have c: "c = 59" by simp
  show ?case
  proof (cases "server 60")
    case (Body status)
    with assms(1) [of 60] c show ?thesis
      by (subst checkStatus.simps) (simp add: maxPolls_def fetches_def)
  next
    case FetchFailed
    with c show ?thesis
      by (subst checkStatus.simps) (simp add: maxPolls_def fetches_def)
  qed
next
  case (Suc d)
  then have c: "c < 59" and d: "d = 59 - Suc c" by simp_all
  from Suc.hyps(1) [OF d] c
  have ih: "fetches (checkStatus server i (Suc c)) = 60 - Suc c" by simp
  show ?case
  proof (cases "server (Suc c)")
    case (Body status)
    with assms(1) [of "Suc c"] c ih show ?thesis
      by (subst checkStatus.simps) (simp add: maxPolls_def fetches_def)
  next
    case FetchFailed
    with c ih show ?thesis
      by (subst checkStatus.simps) (simp add: maxPolls_def fetches_def)
  qed
qed

text \<open>
  C4. Against a server that always answers \<open>RUNNING\<close> the loop fetches the status,
  sets its timer to the interval (1000 ms by default) and fetches again, 60 fetches with
  59 timers between them; after the 60th answer it reports the timeout, which is not the
  report of a failure, re-enables the run button and sets no further timer, so there is
  no 61st request. When any of the requests fail instead, or answer with another status
  that is not final, the loop still makes exactly 60 requests.
\<close>

theorem poll_loop_stops_after_60_requests:
  "((\<forall>k. server k = Body ''RUNNING'') \<longrightarrow>
      pollExecutionStatus server defaultInterval =
        concat (replicate 59 [Fetch, SetTimeout 1000]) @ [Fetch, Timeout, RunAgain] \<and>
      fetches (pollExecutionStatus server defaultInterval) = 60) \<and>
   ((\<forall>k. pending (server k)) \<longrightarrow> fetches (pollExecutionStatus server interval) = 60) \<and>
   Timeout \<noteq> Failed"
proof -
  have a: "pollExecutionStatus server defaultInterval =
        concat (replicate 59 [Fetch, SetTimeout 1000]) @ [Fetch, Timeout, RunAgain]"
    if "\<forall>k. server k = Body ''RUNNING''"
    using checkStatus_running [of server 0 1000] that
    by (simp add: pollExecutionStatus_def defaultInterval_def)
  have b: "fetches (pollExecutionStatus server j) = 60" if "\<forall>k. pending (server k)" for j
    using checkStatus_fetches [of server 0 j] that by (simp add: pollExecutionStatus_def)
  have "\<forall>k. pending (server k)" if "\<forall>k. server k = Body ''RUNNING''"
    using that by simp
  with a b show ?thesis by blast
qed

theorem poll_loop_stops_after_60_requests_witness:
  "fetches (pollExecutionStatus (\<lambda>k. Body ''RUNNING'') defaultInterval) = 60 \<and>
   last (pollExecutionStatus (\<lambda>k. Body ''RUNNING'') defaultInterval) = RunAgain \<and>
   fetches (pollExecutionStatus (\<lambda>k. if k < 30 then FetchFailed else Body ''PENDING'') 1000) = 60"
proof -
  let ?flaky = "\<lambda>k::nat. if k < 30 then FetchFailed else Body ''PENDING''"
  have p: "\<forall>k. pending (?flaky k)" by simp
  have r: "\<forall>k::nat. (\<lambda>k. Body ''RUNNING'') k = Body ''RUNNING''" by simp
  from poll_loop_stops_after_60_requests [of "\<lambda>k. Body ''RUNNING''" 1000] r
  have a: "pollExecutionStatus (\<lambda>k. Body ''RUNNING'') defaultInterval =
        concat (replicate 59 [Fetch, SetTimeout 1000]) @ [Fetch, Timeout, RunAgain]"
    and b: "fetches (pollExecutionStatus (\<lambda>k. Body ''RUNNING'') defaultInterval) = 60"
    by blast+
  from a have c: "last (pollExecutionStatus (\<lambda>k. Body ''RUNNING'') defaultInterval) = RunAgain"
    by (simp only: last_appendR list.distinct not_False_eq_True last.simps if_False if_True
          refl)
  from poll_loop_stops_after_60_requests [of ?flaky 1000] p
  have d: "fetches (pollExecutionStatus ?flaky 1000) = 60" by blast
  from b c d show ?thesis by blast
qed

section \<open>The adjacency list\<close>

lemma foldl_upd_const:
  "foldl (\<lambda>m n. m(f n \<mapsto> v)) m0 ns x = (if x \<in> f ` set ns then Some v else m0 x)"
  by (induction ns arbitrary: m0) auto

lemma emptyAdjacency_apply:
  "emptyAdjacency ns x = (if x \<in> nid ` set ns then Some [] else None)"
  by (simp add: emptyAdjacency_def foldl_upd_const)

lemma noneVisited_apply:
  "noneVisited ns x = (if x \<in> nid ` set ns then Some False else None)"
  by (simp add: noneVisited_def foldl_upd_const)

lemma visitedSet_noneVisited: "visitedSet (noneVisited ns) = {}"
  by (simp add: visitedSet_def noneVisited_apply)

lemma linked_Cons:
  "linked (c # cs) `` {x} =
     (if x = nodeId (cstart c) then {nodeId (cend c)} else {}) \<union>
     (if x = nodeId (cend c) then {nodeId (cstart c)} else {}) \<union> linked cs `` {x}"
  by (auto simp add: linked_def)

lemma addConnections_neighbours:
  assumes "\<forall>c \<in> set cs. nodeId (cstart c) \<in> dom adj \<and> nodeId (cend c) \<in> dom adj"
  shows "\<exists>adj'. addConnections cs adj = Inr adj' \<and> dom adj' = dom adj \<and>
           (\<forall>x. neighbours adj' x = neighbours adj x \<union> linked cs `` {x})"
  using assms
proof (induction cs arbitrary: adj)
  case Nil
  then show ?case by (simp add: linked_def)
next
  case (Cons c cs)
  let ?s = "nodeId (cstart c)" and ?t = "nodeId (cend c)"
  from Cons.prems obtain xs where xs: "adj ?s = Some xs" by auto
  let ?m1 = "adj(?s \<mapsto> xs @ [?t])"
  from Cons.prems have "?t \<in> dom ?m1" by auto
  then obtain ys where ys: "?m1 ?t = Some ys" by (blast dest: domD)
  let ?m2 = "?m1(?t \<mapsto> ys @ [?s])"
  have d: "dom ?m2 = dom adj" using xs ys Cons.prems by auto
  have step: "addConnections (c # cs) adj = addConnections cs ?m2"
    using xs ys by (simp add: Let_def)
  have nb: "neighbours ?m2 x = neighbours adj x \<union>
      (if x = ?s then {?t} else {}) \<union> (if x = ?t then {?s} else {})" for x
    using xs ys by (auto simp add: neighbours_def split: if_splits option.splits)
  from Cons.prems d
  have "\<forall>c \<in> set cs. nodeId (cstart c) \<in> dom ?m2 \<and> nodeId (cend c) \<in> dom ?m2" by simp
  from Cons.IH [OF this] obtain adj' where a: "addConnections cs ?m2 = Inr adj'"
    "dom adj' = dom ?m2" "\<forall>x. neighbours adj' x = neighbours ?m2 x \<union> linked cs `` {x}"
    by blast
  have "neighbours adj' x = neighbours adj x \<union> linked (c # cs) `` {x}" for x
    using a(3) nb [of x] linked_Cons [of c cs x] by auto
  with a step d show ?case by auto
qed

section \<open>One traversal\<close>

lemma visitedSet_upd: "visitedSet (vis(v \<mapsto> True)) = insert v (visitedSet vis)"
  by (auto simp add: visitedSet_def)

lemma not_visited_iff: "(vis x \<noteq> Some True) = (x \<notin> visitedSet vis)"
  by (simp add: visitedSet_def)

lemma dfsPost_nil: "roots \<subseteq> visitedSet vis \<Longrightarrow> dfsPost adj roots vis vis []"
  by (simp add: dfsPost_def)

lemma dfsPostD:
  assumes "dfsPost adj roots vis vis' new"
  shows "distinct new" and "set new \<inter> visitedSet vis = {}"
    and "visitedSet vis' = visitedSet vis \<union> set new" and "set new \<subseteq> dom adj"
    and "roots \<subseteq> visitedSet vis'" and "\<forall>x \<in> set new. neighbours adj x \<subseteq> visitedSet vis'"
    and "set new \<subseteq> (adjRel adj)\<^sup>* `` roots"
  using assms unfolding dfsPost_def by blast+

lemma dfsPost_skip:
  assumes "a \<in> visitedSet vis" and "dfsPost adj roots vis vis' new"
  shows "dfsPost adj (insert a roots) vis vis' new"
proof -
  have "(adjRel adj)\<^sup>* `` roots \<subseteq> (adjRel adj)\<^sup>* `` insert a roots" by blast
  with assms show ?thesis unfolding dfsPost_def by blast
qed

lemma dfsPost_trans:
  assumes "dfsPost adj {a} vis vis1 new1" and "dfsPost adj roots vis1 vis2 new2"
  shows "dfsPost adj (insert a roots) vis vis2 (new1 @ new2)"
proof -
  from assms(1) have 1: "distinct new1" "set new1 \<inter> visitedSet vis = {}"
    "visitedSet vis1 = visitedSet vis \<union> set new1" "set new1 \<subseteq> dom adj"
    "{a} \<subseteq> visitedSet vis1" "\<forall>x \<in> set new1. neighbours adj x \<subseteq> visitedSet vis1"
    "set new1 \<subseteq> (adjRel adj)\<^sup>* `` {a}"
    by (rule dfsPostD)+
  from assms(2) have 2: "distinct new2" "set new2 \<inter> visitedSet vis1 = {}"
    "visitedSet vis2 = visitedSet vis1 \<union> set new2" "set new2 \<subseteq> dom adj"
    "roots \<subseteq> visitedSet vis2" "\<forall>x \<in> set new2. neighbours adj x \<subseteq> visitedSet vis2"
    "set new2 \<subseteq> (adjRel adj)\<^sup>* `` roots"
    by (rule dfsPostD)+
  have d: "distinct (new1 @ new2)" using 1(1,3) 2(1,2) by auto
  have e: "set (new1 @ new2) \<inter> visitedSet vis = {}" using 1(2,3) 2(2) by auto
  have v: "visitedSet vis2 = visitedSet vis \<union> set (new1 @ new2)" using 1(3) 2(3) by auto
  have s: "set (new1 @ new2) \<subseteq> dom adj" using 1(4) 2(4) by simp
  have r: "insert a roots \<subseteq> visitedSet vis2" using 1(5) 2(3,5) by auto
  have c: "\<forall>x \<in> set (new1 @ new2). neighbours adj x \<subseteq> visitedSet vis2"
    using 1(6) 2(3,6) by auto
  have "(adjRel adj)\<^sup>* `` {a} \<subseteq> (adjRel adj)\<^sup>* `` insert a roots"
    and "(adjRel adj)\<^sup>* `` roots \<subseteq> (adjRel adj)\<^sup>* `` insert a roots" by blast+
  with 1(7) 2(7) have p: "set (new1 @ new2) \<subseteq> (adjRel adj)\<^sup>* `` insert a roots" by auto
  from d e v s r c p show ?thesis unfolding dfsPost_def by blast
qed

lemma dfsPost_root:
  assumes "adj v = Some ys" and "v \<notin> visitedSet vis"
    and "dfsPost adj (set ys) (vis(v \<mapsto> True)) vis' new"
  shows "dfsPost adj {v} vis vis' (v # new)"
proof -
  from assms(3) have 2: "distinct new" "set new \<inter> visitedSet (vis(v \<mapsto> True)) = {}"
    "visitedSet vis' = visitedSet (vis(v \<mapsto> True)) \<union> set new" "set new \<subseteq> dom adj"
    "set ys \<subseteq> visitedSet vis'" "\<forall>x \<in> set new. neighbours adj x \<subseteq> visitedSet vis'"
    "set new \<subseteq> (adjRel adj)\<^sup>* `` set ys"
    by (rule dfsPostD)+
  note 2 = 2 [unfolded visitedSet_upd]
  have nb: "neighbours adj v = set ys" using assms(1) by (simp add: neighbours_def)
  have d: "distinct (v # new)" using 2(1,2) by auto
  have e: "set (v # new) \<inter> visitedSet vis = {}" using 2(2) assms(2) by auto
  have vv: "visitedSet vis' = visitedSet vis \<union> set (v # new)" using 2(3) by auto
  have s: "set (v # new) \<subseteq> dom adj" using 2(4) assms(1) by auto
  have r: "{v} \<subseteq> visitedSet vis'" using 2(3) by auto
  have c: "\<forall>x \<in> set (v # new). neighbours adj x \<subseteq> visitedSet vis'"
    using 2(5,6) nb by auto
  have "(adjRel adj)\<^sup>* `` set ys \<subseteq> (adjRel adj)\<^sup>* `` {v}"
  proof
    fix z assume "z \<in> (adjRel adj)\<^sup>* `` set ys"
    then obtain y where y: "y \<in> set ys" "(y, z) \<in> (adjRel adj)\<^sup>*" by blast
    from y(1) nb have "(v, y) \<in> adjRel adj" by (simp add: adjRel_def)
    from this y(2) have "(v, z) \<in> (adjRel adj)\<^sup>*" by (rule converse_rtrancl_into_rtrancl)
    then show "z \<in> (adjRel adj)\<^sup>* `` {v}" by blast
  qed
  with 2(7) have p: "set (v # new) \<subseteq> (adjRel adj)\<^sup>* `` {v}" by auto
  from d e vv s r c p show ?thesis unfolding dfsPost_def by blast
qed

lemma card_unvisited_less:
  assumes "finite (dom adj)" and "v \<in> dom adj" and "v \<notin> visitedSet vis"
    and "card (dom adj - visitedSet vis) \<le> Suc k"
  shows "card (dom adj - visitedSet (vis(v \<mapsto> True))) \<le> k"
proof -
  have "dom adj - visitedSet (vis(v \<mapsto> True)) = (dom adj - visitedSet vis) - {v}"
    by (auto simp add: visitedSet_upd)
  moreover have "v \<in> dom adj - visitedSet vis" using assms by simp
  moreover have "finite (dom adj - visitedSet vis)" using assms(1) by simp
  ultimately show ?thesis using assms(4) by (simp add: card_Diff_singleton)
qed

lemma card_unvisited_mono:
  assumes "finite (dom adj)" and "visitedSet vis \<subseteq> visitedSet vis1"
    and "card (dom adj - visitedSet vis) \<le> k"
  shows "card (dom adj - visitedSet vis1) \<le> k"
proof -
  have "dom adj - visitedSet vis1 \<subseteq> dom adj - visitedSet vis" using assms(2) by blast
  then have "card (dom adj - visitedSet vis1) \<le> card (dom adj - visitedSet vis)"
    using assms(1) by (intro card_mono) simp_all
  with assms(3) show ?thesis by simp
qed

text \<open>The loop over the neighbours, given what the calls of \<open>dfs\<close> at the same depth do.\<close>

lemma dfsEach_correct:
  assumes fin: "finite (dom adj)"
    and dfs: "\<And>v vis acc. v \<in> dom adj \<Longrightarrow> v \<notin> visitedSet vis \<Longrightarrow>
        card (dom adj - visitedSet vis) \<le> k \<Longrightarrow>
        \<exists>vis' new. dfs k adj v (vis, acc) = Some (Inr (vis', acc @ new)) \<and>
          dfsPost adj {v} vis vis' new"
  shows "set as \<subseteq> dom adj \<Longrightarrow> card (dom adj - visitedSet vis) \<le> k \<Longrightarrow>
         \<exists>vis' new. dfsEach k adj as (vis, acc) = Some (Inr (vis', acc @ new)) \<and>
           dfsPost adj (set as) vis vis' new"
proof (induction as arbitrary: vis acc)
  case Nil
  then show ?case by (simp add: dfsPost_nil)
next
  case (Cons a as)
  show ?case
  proof (cases "a \<in> visitedSet vis")
    case True
    from Cons.IH [of vis acc] Cons.prems obtain vis' new
      where r: "dfsEach k adj as (vis, acc) = Some (Inr (vis', acc @ new))"
        "dfsPost adj (set as) vis vis' new" by auto
    from True r(1) have "dfsEach k adj (a # as) (vis, acc) = Some (Inr (vis', acc @ new))"
      by (simp add: visitedSet_def)
    moreover from dfsPost_skip [OF True r(2)] have "dfsPost adj (set (a # as)) vis vis' new"
      by simp
    ultimately show ?thesis by blast
  next
    case False
    from Cons.prems have a: "a \<in> dom adj" by simp
    from dfs [OF a False Cons.prems(2), of acc] obtain vis1 new1
      where r1: "dfs k adj a (vis, acc) = Some (Inr (vis1, acc @ new1))"
        "dfsPost adj {a} vis vis1 new1" by blast
    from r1(2) have "visitedSet vis \<subseteq> visitedSet vis1" by (auto simp add: dfsPost_def)
    from card_unvisited_mono [OF fin this Cons.prems(2)]
    have c1: "card (dom adj - visitedSet vis1) \<le> k" .
    from Cons.IH [of vis1 "acc @ new1"] Cons.prems(1) c1 obtain vis2 new2
      where r2: "dfsEach k adj as (vis1, acc @ new1) = Some (Inr (vis2, (acc @ new1) @ new2))"
        "dfsPost adj (set as) vis1 vis2 new2" by auto
    from False r1(1) r2(1)
    have "dfsEach k adj (a # as) (vis, acc) = Some (Inr (vis2, acc @ new1 @ new2))"
      by (simp add: visitedSet_def)
    moreover from dfsPost_trans [OF r1(2) r2(2)]
    have "dfsPost adj (set (a # as)) vis vis2 (new1 @ new2)" by simp
    ultimately show ?thesis by blast
  qed
qed

text \<open>
  With a depth bound of at least the number of unvisited nodes, \<open>dfs\<close> returns: it
  neither throws nor reaches the bound.
\<close>

lemma dfs_correct:
  assumes fin: "finite (dom adj)"
    and closed: "\<forall>x ys. adj x = Some ys \<longrightarrow> set ys \<subseteq> dom adj"
  shows "v \<in> dom adj \<Longrightarrow> v \<notin> visitedSet vis \<Longrightarrow> card (dom adj - visitedSet vis) \<le> k \<Longrightarrow>
         \<exists>vis' new. dfs k adj v (vis, acc) = Some (Inr (vis', acc @ v # new)) \<and>
           dfsPost adj {v} vis vis' (v # new)"
proof (induction k arbitrary: v vis acc)
  case 0
  from 0(1,2) have "v \<in> dom adj - visitedSet vis" by simp
  moreover from 0(3) fin have "dom adj - visitedSet vis = {}" by simp
  ultimately show ?case by simp
next
  case (Suc k)
  from Suc.prems(1) obtain ys where ys: "adj v = Some ys" by blast
  have sub: "set ys \<subseteq> dom adj" using closed ys by blast
  have c: "card (dom adj - visitedSet (vis(v \<mapsto> True))) \<le> k"
    using card_unvisited_less [OF fin Suc.prems] .
  have "\<exists>vis' new. dfs k adj u (w, acc') = Some (Inr (vis', acc' @ new)) \<and>
          dfsPost adj {u} w vis' new"
    if "u \<in> dom adj" "u \<notin> visitedSet w" "card (dom adj - visitedSet w) \<le> k" for u w acc'
    using Suc.IH [OF that, of acc'] by blast
  from dfsEach_correct [OF fin this sub c, of "acc @ [v]"] obtain vis' new
    where r: "dfsEach k adj ys (vis(v \<mapsto> True), acc @ [v]) = Some (Inr (vis', (acc @ [v]) @ new))"
      "dfsPost adj (set ys) (vis(v \<mapsto> True)) vis' new" by blast
  from ys r(1) have "dfs (Suc k) adj v (vis, acc) = Some (Inr (vis', acc @ v # new))"
    by simp
  moreover from dfsPost_root [OF ys Suc.prems(2) r(2)] have "dfsPost adj {v} vis vis' (v # new)" .
  ultimately show ?case by blast
qed

section \<open>The components\<close>

lemma closed_rtrancl:
  assumes "\<forall>x \<in> S. neighbours adj x \<subseteq> S" and "(x, y) \<in> (adjRel adj)\<^sup>*" and "x \<in> S"
  shows "y \<in> S"
  using assms(2,3)
proof (induction rule: rtrancl_induct)
  case base
  then show ?case .
next
  case (step y z)
  then have "y \<in> S" by simp
  moreover from step(2) have "z \<in> neighbours adj y" by (simp add: adjRel_def)
  ultimately show ?case using assms(1) by blast
qed

lemma dfs_component:
  assumes sym: "sym (adjRel adj)"
    and closed: "\<forall>x \<in> visitedSet vis. neighbours adj x \<subseteq> visitedSet vis"
    and v: "v \<notin> visitedSet vis"
    and post: "dfsPost adj {v} vis vis' new"
  shows "set new = (adjRel adj)\<^sup>* `` {v}"
    and "\<forall>x \<in> visitedSet vis'. neighbours adj x \<subseteq> visitedSet vis'"
proof -
  note p = dfsPostD [OF post]
  show c': "\<forall>x \<in> visitedSet vis'. neighbours adj x \<subseteq> visitedSet vis'"
    using closed p(3,6) by blast
  have "(adjRel adj)\<^sup>* `` {v} \<subseteq> set new"
  proof
    fix y assume "y \<in> (adjRel adj)\<^sup>* `` {v}"
    then have vy: "(v, y) \<in> (adjRel adj)\<^sup>*" by simp
    from p(5) have "v \<in> visitedSet vis'" by simp
    from closed_rtrancl [OF c' vy this] have y': "y \<in> visitedSet vis'" .
    have "y \<notin> visitedSet vis"
    proof
      assume y: "y \<in> visitedSet vis"
      from sym have "sym ((adjRel adj)\<^sup>*)" by (rule sym_rtrancl)
      with vy have "(y, v) \<in> (adjRel adj)\<^sup>*" by (simp add: sym_def)
      from closed_rtrancl [OF closed this y] v show False by simp
    qed
    with y' p(3) show "y \<in> set new" by simp
  qed
  with p(7) show "set new = (adjRel adj)\<^sup>* `` {v}" by blast
qed

lemma find_by_id:
  assumes "i \<in> nid ` set ns"
  shows "\<exists>n. find (\<lambda>n. nid n = i) ns = Some n \<and> nid n = i"
  using assms by (induction ns) auto

lemma no_missing_object:
  assumes "set part \<subseteq> nid ` set ns"
  shows "\<not> list_ex (\<lambda>x. x = None) (networkNodeObjects ns part)"
  using assms
proof (induction part)
  case Nil
  then show ?case by (simp add: networkNodeObjects_def)
next
  case (Cons i part)
  from Cons.prems have "i \<in> nid ` set ns" by simp
  from find_by_id [OF this] obtain n where "find (\<lambda>n. nid n = i) ns = Some n" by blast
  with Cons show ?case by (simp add: networkNodeObjects_def)
qed

lemma ids_of_objects:
  assumes "set part \<subseteq> nid ` set ns"
  shows "map nid (objectsOf ns part) = part"
  using assms
proof (induction part)
  case Nil
  then show ?case by (simp add: objectsOf_def)
next
  case (Cons i part)
  from Cons.prems have "i \<in> nid ` set ns" by simp
  from find_by_id [OF this] obtain n where "find (\<lambda>n. nid n = i) ns = Some n" "nid n = i"
    by blast
  with Cons show ?case by (simp add: objectsOf_def)
qed

lemma objects_agree: "map the (networkNodeObjects ns part) = objectsOf ns part"
  by (simp add: networkNodeObjects_def objectsOf_def)

lemma connections_agree: "inducedConnections cs part = induced cs part"
  by (simp add: inducedConnections_def induced_def)

lemma toNetNode_agrees:
  "map toNetNode objs =
     map (\<lambda>n. \<lparr> nnId = nid n, nnType = ntype n, nnSubType = subType n,
                 nnPosition = position n, nnConfig = nconfig n \<rparr>) objs"
  by (simp add: toNetNode_def)

lemma toNetConnection_agrees:
  "map toNetConnection conns =
     map (\<lambda>c. \<lparr> ncSourceNode = nodeId (cstart c), ncSourcePort = portType (cstart c),
                 ncTargetNode = nodeId (cend c), ncTargetPort = portType (cend c) \<rparr>) conns"
  by (simp add: toNetConnection_def)

lemma pushNetwork_emits:
  assumes "set part \<subseteq> nid ` set ns"
  shows "pushNetwork ns cs part nets = Inr (nets @ emitted ns cs (length nets) [part])"
  using no_missing_object [OF assms]
  by (simp add: pushNetwork_def Let_def qualifies_def toNetwork_def objects_agree
        connections_agree toNetNode_agrees toNetConnection_agrees)

lemma emitted_Cons:
  "emitted ns cs k (part # parts) =
     emitted ns cs k [part] @ emitted ns cs (k + length (emitted ns cs k [part])) parts"
  by simp

lemma ids_of_emitted:
  assumes "set (concat parts) \<subseteq> nid ` set ns"
  shows "map (map nnId \<circ> netNodes) (emitted ns cs k parts) = filter (qualifies ns cs) parts"
  using assms
proof (induction parts arbitrary: k)
  case Nil
  then show ?case by simp
next
  case (Cons part parts)
  from Cons.prems have "set part \<subseteq> nid ` set ns" by simp
  from ids_of_objects [OF \<open>set part \<subseteq> nid ` set ns\<close>]
  have "map nnId (netNodes (toNetwork ns cs k part)) = part"
    by (simp add: toNetwork_def comp_def)
  moreover from Cons.prems have "set (concat parts) \<subseteq> nid ` set ns" by simp
  ultimately show ?case using Cons.IH by simp
qed

text \<open>The main loop, from any point where the visited nodes are whole components.\<close>

lemma findNetworks_correct:
  assumes fin: "finite (dom adj)"
    and inside: "\<forall>x ys. adj x = Some ys \<longrightarrow> set ys \<subseteq> dom adj"
    and sym: "sym (adjRel adj)"
    and ids: "dom adj = nid ` set ns"
    and depth: "card (dom adj) \<le> depth"
  shows "set rest \<subseteq> set ns \<Longrightarrow> \<forall>x \<in> visitedSet vis. neighbours adj x \<subseteq> visitedSet vis \<Longrightarrow>
    \<exists>parts. findNetworks depth ns cs adj rest vis nets =
               Some (Inr (nets @ emitted ns cs (length nets) parts)) \<and>
       distinct (concat parts) \<and> set (concat parts) \<inter> visitedSet vis = {} \<and>
       set (concat parts) \<subseteq> dom adj \<and> nid ` set rest \<subseteq> visitedSet vis \<union> set (concat parts) \<and>
       (\<forall>part \<in> set parts. part \<noteq> [] \<and> set part = (adjRel adj)\<^sup>* `` {hd part}) \<and>
       subseq (map hd parts) (map nid rest)"
proof (induction rest arbitrary: vis nets)
  case Nil
  have "findNetworks depth ns cs adj [] vis nets = Some (Inr (nets @ emitted ns cs (length nets) []))"
    by simp
  then show ?case by (intro exI [of _ "[]"]) simp
next
  case (Cons n rest)
  from Cons.prems(1) have rest: "set rest \<subseteq> set ns" and n: "nid n \<in> dom adj"
    using ids by auto
  show ?case
  proof (cases "nid n \<in> visitedSet vis")
    case True
    from Cons.IH [OF rest Cons.prems(2), of nets] obtain parts where
      r: "findNetworks depth ns cs adj rest vis nets =
            Some (Inr (nets @ emitted ns cs (length nets) parts))"
      "distinct (concat parts)" "set (concat parts) \<inter> visitedSet vis = {}"
      "set (concat parts) \<subseteq> dom adj" "nid ` set rest \<subseteq> visitedSet vis \<union> set (concat parts)"
      "\<forall>part \<in> set parts. part \<noteq> [] \<and> set part = (adjRel adj)\<^sup>* `` {hd part}"
      "subseq (map hd parts) (map nid rest)" by blast
    from True r(1) have 1: "findNetworks depth ns cs adj (n # rest) vis nets =
            Some (Inr (nets @ emitted ns cs (length nets) parts))"
      by (simp add: visitedSet_def)
    from True r(5) have 5: "nid ` set (n # rest) \<subseteq> visitedSet vis \<union> set (concat parts)"
      by auto
    from r(7) have 7: "subseq (map hd parts) (map nid (n # rest))" by (simp add: list_emb_Cons)
    show ?thesis
      by (rule exI [of _ parts]) (intro conjI 1 r(2,3,4) 5 r(6) 7)
  next
    case False
    have "card (dom adj - visitedSet vis) \<le> depth"
      using card_mono [OF fin, of "dom adj - visitedSet vis"] depth by simp
    from dfs_correct [OF fin inside n False this, where acc = "[]"] obtain vis1 new
      where d: "dfs depth adj (nid n) (vis, []) = Some (Inr (vis1, nid n # new))"
        "dfsPost adj {nid n} vis vis1 (nid n # new)" by auto
    let ?part = "nid n # new"
    note p = dfsPostD [OF d(2)]
    from dfs_component [OF sym Cons.prems(2) False d(2)]
    have comp: "set ?part = (adjRel adj)\<^sup>* `` {nid n}"
      and closed1: "\<forall>x \<in> visitedSet vis1. neighbours adj x \<subseteq> visitedSet vis1" by simp_all
    from p(4) ids have sub: "set ?part \<subseteq> nid ` set ns" by simp
    let ?nets1 = "nets @ emitted ns cs (length nets) [?part]"
    from Cons.IH [OF rest closed1, of ?nets1] obtain parts where
      r: "findNetworks depth ns cs adj rest vis1 ?nets1 =
            Some (Inr (?nets1 @ emitted ns cs (length ?nets1) parts))"
      "distinct (concat parts)" "set (concat parts) \<inter> visitedSet vis1 = {}"
      "set (concat parts) \<subseteq> dom adj" "nid ` set rest \<subseteq> visitedSet vis1 \<union> set (concat parts)"
      "\<forall>part \<in> set parts. part \<noteq> [] \<and> set part = (adjRel adj)\<^sup>* `` {hd part}"
      "subseq (map hd parts) (map nid rest)" by blast
    have e: "?nets1 @ emitted ns cs (length ?nets1) parts =
             nets @ emitted ns cs (length nets) (?part # parts)"
      by (cases "qualifies ns cs ?part") simp_all
    have 1: "findNetworks depth ns cs adj (n # rest) vis nets =
            Some (Inr (nets @ emitted ns cs (length nets) (?part # parts)))"
      using False d(1) pushNetwork_emits [OF sub, of cs nets] r(1) e
      by (simp add: visitedSet_def)
    have 2: "distinct (concat (?part # parts))"
      using p(1) r(2,3) p(3) by auto
    have 3: "set (concat (?part # parts)) \<inter> visitedSet vis = {}"
      using p(2,3) r(3) by auto
    have 4: "set (concat (?part # parts)) \<subseteq> dom adj"
      using p(4) r(4) by simp
    have 5: "nid ` set (n # rest) \<subseteq> visitedSet vis \<union> set (concat (?part # parts))"
      using r(5) p(3) by auto
    have "hd ?part = nid n" by simp
    with comp have c6: "set ?part = (adjRel adj)\<^sup>* `` {hd ?part}" by (simp only:)
    have ne: "?part \<noteq> []" by simp
    have 6: "\<forall>part \<in> set (?part # parts). part \<noteq> [] \<and> set part = (adjRel adj)\<^sup>* `` {hd part}"
    proof
      fix part assume "part \<in> set (?part # parts)"
      then have "part = ?part \<or> part \<in> set parts" by simp
      then show "part \<noteq> [] \<and> set part = (adjRel adj)\<^sup>* `` {hd part}"
      proof
        assume "part = ?part"
        with c6 ne show ?thesis by (simp only: simp_thms)
      next
        assume "part \<in> set parts"
        with r(6) show ?thesis by blast
      qed
    qed
    have 7: "subseq (map hd (?part # parts)) (map nid (n # rest))"
      using r(7) by simp
    show ?thesis
      by (rule exI [of _ "?part # parts"]) (intro conjI 1 2 3 4 5 6 7)
  qed
qed

lemma emitted_no_connections: "emitted ns [] k parts = []"
  by (induction parts arbitrary: k)
     (simp_all add: qualifies_def induced_def validateNetworkSubset_def Let_def)

lemma toNetwork_content:
  assumes "set part \<subseteq> nid ` set ns"
  shows "netNodes (toNetwork ns cs k part) =
           map (\<lambda>n. \<lparr> nnId = nid n, nnType = ntype n, nnSubType = subType n,
                       nnPosition = position n, nnConfig = nconfig n \<rparr>)
             (objectsOf ns (map nnId (netNodes (toNetwork ns cs k part)))) \<and>
         netConnections (toNetwork ns cs k part) =
           map (\<lambda>c. \<lparr> ncSourceNode = nodeId (cstart c), ncSourcePort = portType (cstart c),
                       ncTargetNode = nodeId (cend c), ncTargetPort = portType (cend c) \<rparr>)
             (filter (\<lambda>c. nodeId (cstart c) \<in> nnId ` set (netNodes (toNetwork ns cs k part)) \<and>
                          nodeId (cend c) \<in> nnId ` set (netNodes (toNetwork ns cs k part))) cs) \<and>
         nodeCount (toNetwork ns cs k part) = length (netNodes (toNetwork ns cs k part)) \<and>
         connectionCount (toNetwork ns cs k part) =
           length (netConnections (toNetwork ns cs k part))"
proof -
  from ids_of_objects [OF assms]
  have ids: "map nnId (netNodes (toNetwork ns cs k part)) = part"
    by (simp add: toNetwork_def comp_def)
  then have "set (map nnId (netNodes (toNetwork ns cs k part))) = set part" by simp
  then have s: "nnId ` set (netNodes (toNetwork ns cs k part)) = set part" by simp
  show ?thesis
    unfolding s ids by (simp add: toNetwork_def induced_def objectsOf_def)
qed

lemma emitted_content:
  assumes "set (concat parts) \<subseteq> nid ` set ns"
  shows "\<forall>N \<in> set (emitted ns cs k parts).
     netNodes N =
       map (\<lambda>n. \<lparr> nnId = nid n, nnType = ntype n, nnSubType = subType n,
                   nnPosition = position n, nnConfig = nconfig n \<rparr>)
         (objectsOf ns (map nnId (netNodes N))) \<and>
     netConnections N =
       map (\<lambda>c. \<lparr> ncSourceNode = nodeId (cstart c), ncSourcePort = portType (cstart c),
                   ncTargetNode = nodeId (cend c), ncTargetPort = portType (cend c) \<rparr>)
         (filter (\<lambda>c. nodeId (cstart c) \<in> nnId ` set (netNodes N) \<and>
                      nodeId (cend c) \<in> nnId ` set (netNodes N)) cs) \<and>
     nodeCount N = length (netNodes N) \<and>
     connectionCount N = length (netConnections N)"
  using assms
proof (induction parts arbitrary: k)
  case Nil
  then show ?case by simp
next
  case (Cons part parts)
  from Cons.prems have p: "set part \<subseteq> nid ` set ns"
    and ps: "set (concat parts) \<subseteq> nid ` set ns" by simp_all
  note ih = Cons.IH [OF ps]
  show ?case
  proof (cases "qualifies ns cs part")
    case True
    then have "emitted ns cs k (part # parts) = toNetwork ns cs k part # emitted ns cs (Suc k) parts"
      by simp
    with toNetwork_content [OF p, of cs k] ih [of "Suc k"] show ?thesis
      by (simp only: list.set ball_simps simp_thms)
  next
    case False
    then have "emitted ns cs k (part # parts) = emitted ns cs k parts" by simp
    with ih [of k] show ?thesis by (simp only:)
  qed
qed

text \<open>
  A connection that starts or ends at an id that no node of the store has makes the
  construction of the adjacency list throw.
\<close>

lemma addConnections_dangling:
  assumes "\<exists>c \<in> set cs. nodeId (cstart c) \<notin> dom adj \<or> nodeId (cend c) \<notin> dom adj"
  shows "addConnections cs adj = Inl TypeError"
  using assms
proof (induction cs arbitrary: adj)
  case Nil
  then show ?case by simp
next
  case (Cons conn cs)
  show ?case
  proof (cases "adj (nodeId (cstart conn))")
    case None
    then show ?thesis by (simp add: Let_def)
  next
    case (Some xs)
    let ?m1 = "adj(nodeId (cstart conn) \<mapsto> xs @ [nodeId (cend conn)])"
    show ?thesis
    proof (cases "?m1 (nodeId (cend conn))")
      case None
      with Some show ?thesis by (simp add: Let_def)
    next
      case ys: (Some ys)
      let ?m2 = "?m1(nodeId (cend conn) \<mapsto> ys @ [nodeId (cstart conn)])"
      from Some ys have d: "dom ?m2 = dom adj" by (auto split: if_splits)
      from Some ys have "nodeId (cstart conn) \<in> dom adj" "nodeId (cend conn) \<in> dom adj"
        by (auto split: if_splits)
      with Cons.prems have "\<exists>c \<in> set cs. nodeId (cstart c) \<notin> dom adj \<or> nodeId (cend c) \<notin> dom adj"
        by auto
      with d have "\<exists>c \<in> set cs. nodeId (cstart c) \<notin> dom ?m2 \<or> nodeId (cend c) \<notin> dom ?m2"
        by (simp only:)
      from Cons.IH [OF this] have "addConnections cs ?m2 = Inl TypeError" .
      moreover have "addConnections (conn # cs) adj = addConnections cs ?m2"
        using Some ys by (simp add: Let_def)
      ultimately show ?thesis by (simp only:)
    qed
  qed
qed

lemma detectMultipleNetworks_dangling:
  assumes "ns \<noteq> []"
    and "\<exists>c \<in> set cs. nodeId (cstart c) \<notin> nid ` set ns \<or> nodeId (cend c) \<notin> nid ` set ns"
  shows "detectMultipleNetworks ns cs = Some (Inl TypeError)"
proof -
  have "dom (emptyAdjacency ns) = nid ` set ns"
    by (auto simp add: dom_def emptyAdjacency_apply)
  with assms(2) have "\<exists>c \<in> set cs. nodeId (cstart c) \<notin> dom (emptyAdjacency ns) \<or>
      nodeId (cend c) \<notin> dom (emptyAdjacency ns)" by simp
  from addConnections_dangling [OF this]
  have "addConnections cs (emptyAdjacency ns) = Inl TypeError" .
  moreover from assms(2) have "cs \<noteq> []" by auto
  ultimately show ?thesis using assms(1) by (simp add: detectMultipleNetworks_def)
qed

text \<open>
  C1, for a store in which every connection starts and ends at a node of the store.
  \<open>detectMultipleNetworks\<close> returns (it neither throws nor exhausts its depth bound)
  the networks of a list of components with these properties. The components partition
  the node ids: no id occurs twice, and every node id occurs. Each component is the set
  of all nodes that a path of connections, taken in either direction, reaches from its
  first node, so it is a maximal connected set. The first nodes come in the order of
  the store. The result holds exactly the components that qualify, in that order and
  numbered from 1: those with an input node, an output node, at least three nodes, and
  a verdict \<open>true\<close> of \<open>validateNetworkSubset\<close>. Each network of the result lists the
  node objects of its component, and its connections are the connections of the store
  with both ends among its nodes, in the order of the store, each as source node, source
  port, target node and target port; the two counts are the lengths of the two lists.
\<close>

theorem detectMultipleNetworks_connected_components:
  assumes "\<forall>c \<in> set cs. nodeId (cstart c) \<in> nid ` set ns \<and> nodeId (cend c) \<in> nid ` set ns"
  shows "\<exists>parts.
     detectMultipleNetworks ns cs = Some (Inr (emitted ns cs 0 parts)) \<and>
     map (map nnId \<circ> netNodes) (emitted ns cs 0 parts) = filter (qualifies ns cs) parts \<and>
     distinct (concat parts) \<and> set (concat parts) = nid ` set ns \<and>
     (\<forall>part \<in> set parts. part \<noteq> [] \<and> set part = component cs (hd part)) \<and>
     subseq (map hd parts) (map nid ns) \<and>
     (\<forall>N \<in> set (emitted ns cs 0 parts).
        netNodes N =
          map (\<lambda>n. \<lparr> nnId = nid n, nnType = ntype n, nnSubType = subType n,
                      nnPosition = position n, nnConfig = nconfig n \<rparr>)
            (objectsOf ns (map nnId (netNodes N))) \<and>
        netConnections N =
          map (\<lambda>c. \<lparr> ncSourceNode = nodeId (cstart c), ncSourcePort = portType (cstart c),
                      ncTargetNode = nodeId (cend c), ncTargetPort = portType (cend c) \<rparr>)
            (filter (\<lambda>c. nodeId (cstart c) \<in> nnId ` set (netNodes N) \<and>
                         nodeId (cend c) \<in> nnId ` set (netNodes N)) cs) \<and>
        nodeCount N = length (netNodes N) \<and>
        connectionCount N = length (netConnections N))"
proof -
  let ?D = "nid ` set ns"
  have d0: "dom (emptyAdjacency ns) = ?D"
    by (auto simp add: dom_def emptyAdjacency_apply)
  have n0: "neighbours (emptyAdjacency ns) x = {}" for x
    by (simp add: neighbours_def emptyAdjacency_apply)
  from assms d0
  have "\<forall>c \<in> set cs. nodeId (cstart c) \<in> dom (emptyAdjacency ns) \<and>
          nodeId (cend c) \<in> dom (emptyAdjacency ns)" by simp
  from addConnections_neighbours [OF this] obtain adj
    where a: "addConnections cs (emptyAdjacency ns) = Inr adj" "dom adj = ?D"
      "\<forall>x. neighbours adj x = linked cs `` {x}"
    using d0 n0 by auto
  have rel: "adjRel adj = linked cs" using a(3) by (auto simp add: adjRel_def)
  have sym: "sym (adjRel adj)" unfolding rel by (auto simp add: sym_def linked_def)
  have into: "linked cs `` {x} \<subseteq> ?D" for x using assms by (auto simp add: linked_def)
  have inside: "\<forall>x ys. adj x = Some ys \<longrightarrow> set ys \<subseteq> dom adj"
  proof (intro allI impI)
    fix x ys assume "adj x = Some ys"
    then have "set ys = neighbours adj x" by (simp add: neighbours_def)
    with a(2,3) into [of x] show "set ys \<subseteq> dom adj" by simp
  qed
  have fin: "finite (dom adj)" using a(2) by simp
  have "card ?D \<le> card (set ns)" by (rule card_image_le) simp
  also have "\<dots> \<le> length ns" by (rule card_length)
  finally have depth: "card (dom adj) \<le> length ns" using a(2) by simp
  have closed0: "\<forall>x \<in> visitedSet (noneVisited ns). neighbours adj x \<subseteq> visitedSet (noneVisited ns)"
    by (simp add: visitedSet_noneVisited)
  from findNetworks_correct [OF fin inside sym a(2) depth subset_refl closed0, of cs "[]"]
  obtain parts where
    r: "findNetworks (length ns) ns cs adj ns (noneVisited ns) [] =
          Some (Inr ([] @ emitted ns cs (length ([] :: network list)) parts))"
    "distinct (concat parts)" "set (concat parts) \<inter> visitedSet (noneVisited ns) = {}"
    "set (concat parts) \<subseteq> dom adj"
    "nid ` set ns \<subseteq> visitedSet (noneVisited ns) \<union> set (concat parts)"
    "\<forall>part \<in> set parts. part \<noteq> [] \<and> set part = (adjRel adj)\<^sup>* `` {hd part}"
    "subseq (map hd parts) (map nid ns)" by blast
  have all: "set (concat parts) = ?D"
    using r(4,5) a(2) by (simp add: visitedSet_noneVisited)
  have comps: "\<forall>part \<in> set parts. part \<noteq> [] \<and> set part = component cs (hd part)"
    using r(6) by (simp add: rel component_def)
  have res: "detectMultipleNetworks ns cs = Some (Inr (emitted ns cs 0 parts))"
  proof (cases "ns = [] \<or> cs = []")
    case True
    have "cs = []"
    proof (cases cs)
      case Nil
      then show ?thesis .
    next
      case (Cons c cs')
      with assms have "nodeId (cstart c) \<in> nid ` set ns" by simp
      with True Cons show ?thesis by auto
    qed
    then show ?thesis by (simp add: detectMultipleNetworks_def emitted_no_connections)
  next
    case False
    with a(1) r(1) show ?thesis by (simp add: detectMultipleNetworks_def)
  qed
  have idl: "map (map nnId \<circ> netNodes) (emitted ns cs 0 parts) = filter (qualifies ns cs) parts"
    by (rule ids_of_emitted) (simp only: all subset_refl)
  have content: "\<forall>N \<in> set (emitted ns cs 0 parts).
        netNodes N =
          map (\<lambda>n. \<lparr> nnId = nid n, nnType = ntype n, nnSubType = subType n,
                      nnPosition = position n, nnConfig = nconfig n \<rparr>)
            (objectsOf ns (map nnId (netNodes N))) \<and>
        netConnections N =
          map (\<lambda>c. \<lparr> ncSourceNode = nodeId (cstart c), ncSourcePort = portType (cstart c),
                      ncTargetNode = nodeId (cend c), ncTargetPort = portType (cend c) \<rparr>)
            (filter (\<lambda>c. nodeId (cstart c) \<in> nnId ` set (netNodes N) \<and>
                         nodeId (cend c) \<in> nnId ` set (netNodes N)) cs) \<and>
        nodeCount N = length (netNodes N) \<and>
        connectionCount N = length (netConnections N)"
    by (rule emitted_content) (simp only: all subset_refl)
  show ?thesis
    by (rule exI [of _ parts]) (intro conjI res idl r(2) all comps r(7) content)
qed


theorem detectMultipleNetworks_connected_components_witness:
  "detectMultipleNetworks (exNodes @ [exInput\<lparr>nid := ''node-5''\<rparr>]) exConns =
     Some (Inr
       [\<lparr> netName = ''Network 1'',
                    netNodes =
                      [\<lparr> nnId = ''node-1'', nnType = ''input'', nnSubType = None,
                          nnPosition = (0, 0), nnConfig = Some emptyConfig \<rparr>,
                       \<lparr> nnId = ''node-2'', nnType = ''agent'', nnSubType = Some ''openai'',
                          nnPosition = (200, 0),
                          nnConfig = Some (emptyConfig\<lparr> apiKey := Some ''sk-1'',
                                             model := Some ''gpt-4'' \<rparr>) \<rparr>,
                       \<lparr> nnId = ''node-3'', nnType = ''output'', nnSubType = None,
                          nnPosition = (400, 0), nnConfig = Some emptyConfig \<rparr>],
                    netConnections =
                      [\<lparr> ncSourceNode = ''node-1'', ncSourcePort = ''output'',
                          ncTargetNode = ''node-2'', ncTargetPort = ''input'' \<rparr>,
                       \<lparr> ncSourceNode = ''node-2'', ncSourcePort = ''output'',
                          ncTargetNode = ''node-3'', ncTargetPort = ''input'' \<rparr>],
                    nodeCount = 3, connectionCount = 2 \<rparr>]) \<and>
   (\<exists>parts.
      detectMultipleNetworks (exNodes @ [exInput\<lparr>nid := ''node-5''\<rparr>]) exConns =
        Some (Inr (emitted (exNodes @ [exInput\<lparr>nid := ''node-5''\<rparr>]) exConns 0 parts)) \<and>
      distinct (concat parts) \<and>
      set (concat parts) = {''node-1'', ''node-2'', ''node-3'', ''node-5''} \<and>
      (\<forall>part \<in> set parts. part \<noteq> [] \<and> set part = component exConns (hd part)) \<and>
      subseq (map hd parts) [''node-1'', ''node-2'', ''node-3'', ''node-5''])"
proof -
  define n5 where "n5 = exInput\<lparr>nid := ''node-5''\<rparr>"
  define ns where "ns = exNodes @ [n5]"
  have ns_list: "ns = [exInput, exAgent, exOutput, n5]" by (simp add: ns_def exNodes_def)
  have nids: "nid exInput = ''node-1''" "nid exAgent = ''node-2''" "nid exOutput = ''node-3''"
    "nid n5 = ''node-5''"
    by (simp_all add: n5_def exInput_def exAgent_def exOutput_def)
  have ids: "nid ` set ns = {''node-1'', ''node-2'', ''node-3'', ''node-5''}"
    and idl: "map nid ns = [''node-1'', ''node-2'', ''node-3'', ''node-5'']"
    by (simp_all add: ns_list nids)
  have len: "length ns = Suc (Suc (Suc (Suc 0)))" by (simp add: ns_list)
  have ends: "nodeId (cstart exConn12) = ''node-1''" "nodeId (cend exConn12) = ''node-2''"
    "nodeId (cstart exConn23) = ''node-2''" "nodeId (cend exConn23) = ''node-3''"
    by (simp_all add: exConn12_def exConn23_def outOf_def inOf_def)
  have wf: "\<forall>c \<in> set exConns. nodeId (cstart c) \<in> nid ` set ns \<and> nodeId (cend c) \<in> nid ` set ns"
    unfolding ids by (simp add: exConns_def ends)
  have ea: "emptyAdjacency ns x =
      (if x \<in> {''node-1'', ''node-2'', ''node-3'', ''node-5''} then Some [] else None)" for x
    using emptyAdjacency_apply [of ns x] unfolding ids .
  let ?adj = "(emptyAdjacency ns)(''node-1'' \<mapsto> [''node-2''],
            ''node-2'' \<mapsto> [''node-1'', ''node-3''], ''node-3'' \<mapsto> [''node-2''])"
  have adj: "addConnections exConns (emptyAdjacency ns) = Inr ?adj"
    by (simp add: ea exConns_def ends Let_def)
  have obj: "objectsOf ns [''node-1'', ''node-2'', ''node-3''] = exNodes"
    by (simp add: objectsOf_def ns_list nids exNodes_def)
  have ind: "induced exConns [''node-1'', ''node-2'', ''node-3''] = exConns"
    by (simp add: induced_def exConns_def ends)
  have "decimal 1 = ''1''" by code_simp
  then have d1: "decimal (Suc 0) = ''1''" by simp
  have tn: "toNetwork ns exConns 0 [''node-1'', ''node-2'', ''node-3''] =
      \<lparr> netName = ''Network 1'',
                    netNodes =
                      [\<lparr> nnId = ''node-1'', nnType = ''input'', nnSubType = None,
                          nnPosition = (0, 0), nnConfig = Some emptyConfig \<rparr>,
                       \<lparr> nnId = ''node-2'', nnType = ''agent'', nnSubType = Some ''openai'',
                          nnPosition = (200, 0),
                          nnConfig = Some (emptyConfig\<lparr> apiKey := Some ''sk-1'',
                                             model := Some ''gpt-4'' \<rparr>) \<rparr>,
                       \<lparr> nnId = ''node-3'', nnType = ''output'', nnSubType = None,
                          nnPosition = (400, 0), nnConfig = Some emptyConfig \<rparr>],
                    netConnections =
                      [\<lparr> ncSourceNode = ''node-1'', ncSourcePort = ''output'',
                          ncTargetNode = ''node-2'', ncTargetPort = ''input'' \<rparr>,
                       \<lparr> ncSourceNode = ''node-2'', ncSourcePort = ''output'',
                          ncTargetNode = ''node-3'', ncTargetPort = ''input'' \<rparr>],
                    nodeCount = 3, connectionCount = 2 \<rparr>"
    unfolding toNetwork_def obj ind
    by (simp add: d1) (simp add: ex_defs)
  have cids: "connectedNodeIds exConns = {''node-1'', ''node-2'', ''node-3''}"
    by (auto simp add: connectedNodeIds_def exConns_def ends)
  have val: "validateNetworkSubset exNodes exConns"
    by (simp add: validateNetworkSubset_def cids agentConfigured_def Let_def)
       (simp add: ex_defs)
  have ty: "list_ex (\<lambda>n. ntype n = ''input'') exNodes" "list_ex (\<lambda>n. ntype n = ''output'') exNodes"
    by (simp_all add: ex_defs)
  have q: "qualifies ns exConns [''node-1'', ''node-2'', ''node-3'']"
    by (simp add: qualifies_def obj ind val ty)
  have s1: "set [''node-1'', ''node-2'', ''node-3''] \<subseteq> nid ` set ns"
    and s5: "set [''node-5''] \<subseteq> nid ` set ns"
    unfolding ids by simp_all
  have p1: "pushNetwork ns exConns [''node-1'', ''node-2'', ''node-3''] [] =
      Inr [toNetwork ns exConns 0 [''node-1'', ''node-2'', ''node-3'']]"
    using pushNetwork_emits [OF s1, of exConns "[]"] q by simp
  have p2: "pushNetwork ns exConns [''node-5''] nets = Inr nets" for nets
    using pushNetwork_emits [OF s5, of exConns nets] by (simp add: qualifies_def)
  have nv: "noneVisited ns x \<noteq> Some True" for x
    using noneVisited_apply [of ns x] by (simp split: if_splits)
  have d1: "dfs (Suc (Suc (Suc (Suc 0)))) ?adj ''node-1'' (noneVisited ns, []) =
      Some (Inr ((noneVisited ns)(''node-1'' \<mapsto> True, ''node-2'' \<mapsto> True, ''node-3'' \<mapsto> True),
                 [''node-1'', ''node-2'', ''node-3'']))"
    by (simp add: nv)
  have d5: "dfs (Suc (Suc (Suc (Suc 0)))) ?adj ''node-5''
        ((noneVisited ns)(''node-1'' \<mapsto> True, ''node-2'' \<mapsto> True, ''node-3'' \<mapsto> True), []) =
      Some (Inr ((noneVisited ns)(''node-1'' \<mapsto> True, ''node-2'' \<mapsto> True, ''node-3'' \<mapsto> True,
                   ''node-5'' \<mapsto> True), [''node-5'']))"
    by (simp add: ea)
  have f: "findNetworks (Suc (Suc (Suc (Suc 0)))) ns exConns ?adj [exInput, exAgent, exOutput, n5]
        (noneVisited ns) [] =
      Some (Inr [toNetwork ns exConns 0 [''node-1'', ''node-2'', ''node-3'']])"
    by (simp only: findNetworks.simps nids nv not_False_eq_True if_True d1 option.case sum.case
          prod.sel p1)
       (simp add: nv ea p2)
  have cne: "length exConns \<noteq> 0" by (simp add: exConns_def)
  have "detectMultipleNetworks ns exConns =
        findNetworks (length ns) ns exConns ?adj ns (noneVisited ns) []"
    using cne by (simp add: detectMultipleNetworks_def adj len)
  also have "\<dots> = findNetworks (Suc (Suc (Suc (Suc 0)))) ns exConns ?adj ns (noneVisited ns) []"
    by (simp only: len)
  also have "\<dots> = findNetworks (Suc (Suc (Suc (Suc 0)))) ns exConns ?adj
        [exInput, exAgent, exOutput, n5] (noneVisited ns) []"
    by (simp only: ns_list [symmetric])
  finally have "detectMultipleNetworks ns exConns =
     Some (Inr [toNetwork ns exConns 0 [''node-1'', ''node-2'', ''node-3'']])"
    using f by simp
  then have res: "detectMultipleNetworks ns exConns =
     Some (Inr
       [\<lparr> netName = ''Network 1'',
                    netNodes =
                      [\<lparr> nnId = ''node-1'', nnType = ''input'', nnSubType = None,
                          nnPosition = (0, 0), nnConfig = Some emptyConfig \<rparr>,
                       \<lparr> nnId = ''node-2'', nnType = ''agent'', nnSubType = Some ''openai'',
                          nnPosition = (200, 0),
                          nnConfig = Some (emptyConfig\<lparr> apiKey := Some ''sk-1'',
                                             model := Some ''gpt-4'' \<rparr>) \<rparr>,
                       \<lparr> nnId = ''node-3'', nnType = ''output'', nnSubType = None,
                          nnPosition = (400, 0), nnConfig = Some emptyConfig \<rparr>],
                    netConnections =
                      [\<lparr> ncSourceNode = ''node-1'', ncSourcePort = ''output'',
                          ncTargetNode = ''node-2'', ncTargetPort = ''input'' \<rparr>,
                       \<lparr> ncSourceNode = ''node-2'', ncSourcePort = ''output'',
                          ncTargetNode = ''node-3'', ncTargetPort = ''input'' \<rparr>],
                    nodeCount = 3, connectionCount = 2 \<rparr>])"
    by (simp only: tn)
  from detectMultipleNetworks_connected_components [OF wf]
  have "\<exists>parts. detectMultipleNetworks ns exConns = Some (Inr (emitted ns exConns 0 parts)) \<and>
      distinct (concat parts) \<and>
      set (concat parts) = {''node-1'', ''node-2'', ''node-3'', ''node-5''} \<and>
      (\<forall>part \<in> set parts. part \<noteq> [] \<and> set part = component exConns (hd part)) \<and>
      subseq (map hd parts) [''node-1'', ''node-2'', ''node-3'', ''node-5'']"
    unfolding ids idl by blast
  with res show ?thesis unfolding ns_def n5_def by blast
qed

text \<open>The state that \<open>exDanglingEvents\<close> leaves.\<close>

lemma run_exDanglingEvents:
  "nodes (run exDanglingEvents) = [exDroppedAgent, exOutput] \<and>
   connections (run exDanglingEvents) = exConns"
proof -
  note d = decimal_1_2_3
  show ?thesis
    by (simp add: run_def exDanglingEvents_def initialEditor_def createNode_def
        portMouseDown_def portMouseUp_def createConnection_def sameEnds_def deleteButton_def
        Let_def d
        inputCard_def openaiCard_def outputCard_def outOf_def inOf_def exInput_def
        exDroppedAgent_def exOutput_def exConns_def exConn12_def exConn23_def
        numeral_2_eq_2 numeral_3_eq_3)
qed

text \<open>
  C1 as stated, for every state of the store, fails. In the state that
  \<open>exDanglingEvents\<close> leaves, the first connection starts at the node that was deleted
  while the gesture was under way, and \<open>detectMultipleNetworks\<close> throws a \<open>TypeError\<close>
  when it pushes onto the neighbours of that node: it returns no partition and no
  networks.
\<close>

theorem detectMultipleNetworks_throws_on_dangling_connection_counterexample:
  "nodes (run exDanglingEvents) = [exDroppedAgent, exOutput] \<and>
   connections (run exDanglingEvents) = exConns \<and>
   nodeId (cstart exConn12) = ''node-1'' \<and>
   map nid [exDroppedAgent, exOutput] = [''node-2'', ''node-3''] \<and>
   detectMultipleNetworks (nodes (run exDanglingEvents)) (connections (run exDanglingEvents)) =
     Some (Inl TypeError)"
proof -
  note r = run_exDanglingEvents
  have a: "nodeId (cstart exConn12) = ''node-1''"
    and b: "map nid [exDroppedAgent, exOutput] = [''node-2'', ''node-3'']"
    by (simp_all add: exConn12_def outOf_def exDroppedAgent_def exOutput_def)
  from b have ids: "nid ` set [exDroppedAgent, exOutput] = {''node-2'', ''node-3''}"
    by simp
  have "\<exists>c \<in> set exConns. nodeId (cstart c) \<notin> nid ` set [exDroppedAgent, exOutput] \<or>
      nodeId (cend c) \<notin> nid ` set [exDroppedAgent, exOutput]"
    unfolding ids by (rule bexI [of _ exConn12]) (simp_all add: a exConns_def)
  then have "detectMultipleNetworks [exDroppedAgent, exOutput] exConns = Some (Inl TypeError)"
    by (rule detectMultipleNetworks_dangling [rotated]) simp
  with r a b show ?thesis by simp
qed

end
